theory Spec2Isabelle
  imports Complex_Main "HOL-Library.Char_ord" "HOL-Library.List_Lexorder"
begin

section \<open>Temporal smoothing of per-window activity predictions\<close>

text \<open>
  The notebook defines two functions, \<open>mode\<close> and \<open>rolling_mode\<close>, and a loop that
  smooths the predictions of each participant. They are embedded here together with
  the library calls they rest on:
  \<^item> timestamps are whole seconds and \<open>window_size\<close> is a number of seconds (the
    default \<open>'100S'\<close> is 100); pandas holds both as 64-bit signed integers of
    nanoseconds, and the arithmetic of its window indexer wraps around in that type;
  \<^item> labels are values of a linearly ordered type (strings, ordered lexicographically,
    in the notebook); \<open>pd.Series(y, dtype='category')\<close> takes the sorted distinct
    labels as categories, and \<open>cat.codes\<close> is the position of each label there;
  \<^item> the codes are small integers, which the float64 values of the rolling window
    represent exactly, so they are natural numbers here;
  \<^item> every \<open>raise\<close> is a value \<open>Inl e\<close> of the result type.
\<close>

datatype error = ValueError | IndexError | OverflowError | ValidationError

subsection \<open>NumPy, SciPy and pandas primitives\<close>

text \<open>\<open>np.argmax\<close>: the index of the first occurrence of the maximum.\<close>

fun argmax_from :: "nat \<Rightarrow> 'a::linorder \<Rightarrow> nat \<Rightarrow> 'a list \<Rightarrow> nat" where
  "argmax_from bi bv i [] = bi"
| "argmax_from bi bv i (x # xs) =
     (if bv < x then argmax_from i x (Suc i) xs else argmax_from bi bv (Suc i) xs)"

definition argmax :: "'a::linorder list \<Rightarrow> nat" where
  "argmax xs = (case xs of [] \<Rightarrow> 0 | x # xs' \<Rightarrow> argmax_from 0 x 1 xs')"

text \<open>
  \<open>scipy.stats.mode\<close> of a one-dimensional array: the sorted distinct values and
  their counts (\<open>np.unique(a, return_counts=True)\<close>), then the value at the first
  maximal count and that count. On an empty array the two results are empty arrays.
\<close>

definition stats_mode :: "nat list \<Rightarrow> (nat \<times> nat) option" where
  "stats_mode a =
     (if a = [] then None
      else let vals = sort (remdups a);
               cnts = map (count_list a) vals;
               k = argmax cnts
           in Some (vals ! k, cnts ! k))"

text \<open>
  The categories of \<open>pd.Series(y, dtype='category')\<close> and the code of a label
  (its position among the categories).
\<close>

definition categories :: "'a::linorder list \<Rightarrow> 'a list" where
  "categories y = sort (remdups y)"

fun index_of :: "'a \<Rightarrow> 'a list \<Rightarrow> nat" where
  "index_of x [] = 0"
| "index_of x (c # cs) = (if x = c then 0 else Suc (index_of x cs))"

definition cat_codes :: "'a::linorder list \<Rightarrow> nat list" where
  "cat_codes y = map (\<lambda>l. index_of l (categories y)) y"

text \<open>
  \<open>pd.Categorical.from_codes\<close> refuses a code outside the categories; otherwise
  it looks every code up.
\<close>

definition from_codes :: "'a list \<Rightarrow> nat list \<Rightarrow> error + 'a list" where
  "from_codes cats codes =
     (if list_all (\<lambda>c. c < length cats) codes then Inr (map (\<lambda>c. cats ! c) codes)
      else Inl ValueError)"

text \<open>
  \<open>Series.rolling(window_size)\<close> on a datetime index wants the index monotonic
  (increasing or decreasing) and raises otherwise.
\<close>

definition monotonic :: "int list \<Rightarrow> bool" where
  "monotonic t = (sorted t \<or> sorted (rev t))"

text \<open>
  The values of a 64-bit signed integer, and the wrap-around of its arithmetic.
\<close>

definition in_int64 :: "int \<Rightarrow> bool" where
  "in_int64 x = (- 9223372036854775808 \<le> x \<and> x \<le> 9223372036854775807)"

definition wrap64 :: "int \<Rightarrow> int" where
  "wrap64 x = (x + 9223372036854775808) mod 18446744073709551616 - 9223372036854775808"

text \<open>
  The datetime index of the series: the timestamps in nanoseconds. The timestamps
  that a \<open>datetime64[ns]\<close> array holds are those whose nanoseconds are in the 64-bit
  range.
\<close>

definition index_ns :: "int list \<Rightarrow> int list" where
  "index_ns t = map (\<lambda>s. s * 1000000000) t"

definition growth_sign :: "int list \<Rightarrow> int" where
  "growth_sign index = (if index = [] then 1 else if last index < hd index then - 1 else 1)"

text \<open>
  The window of position \<open>i\<close> for a time offset, with the defaults
  \<open>closed='right'\<close> and \<open>min_periods=1\<close>, as pandas' variable window indexer
  computes it on 64-bit integers:
  \<^verbatim>\<open>
  start[0] = 0; end[0] = 1
  for i in range(1, num_values):
      start_bound = index[i] - index_growth_sign * window_size
      start[i] = i
      for j in range(start[i - 1], i):
          start_diff = (index[j] - start_bound) * index_growth_sign
          if start_diff > 0:
              start[i] = j
              break
      end[i] = i + 1
  \<close>
  \<open>index_growth_sign\<close> is \<open>-1\<close> when the last index value is below the first. The
  window of position \<open>i\<close> is the slice from \<open>start[i]\<close> to \<open>i\<close>, both included; it
  always holds the position \<open>i\<close> itself, so that \<open>min_periods\<close> never yields a missing
  value.
\<close>

definition start_diff :: "int list \<Rightarrow> int \<Rightarrow> nat \<Rightarrow> nat \<Rightarrow> int" where
  "start_diff index window_ns i j =
     (let sign = growth_sign index;
          start_bound = wrap64 (index ! i - wrap64 (sign * window_ns))
      in wrap64 (wrap64 (index ! j - start_bound) * sign))"

fun window_start :: "int list \<Rightarrow> int \<Rightarrow> nat \<Rightarrow> nat" where
  "window_start index window_ns 0 = 0"
| "window_start index window_ns (Suc i) =
     (case find (\<lambda>j. 0 < start_diff index window_ns (Suc i) j)
                [window_start index window_ns i..<Suc i] of
        None \<Rightarrow> Suc i
      | Some j \<Rightarrow> j)"

definition window :: "int list \<Rightarrow> 'b list \<Rightarrow> int \<Rightarrow> nat \<Rightarrow> 'b list" where
  "window t xs window_size i =
     drop (window_start (index_ns t) (window_size * 1000000000) i) (take (Suc i) xs)"

text \<open>Running a list of computations stops at the first one that raises.\<close>

fun collect_results :: "(error + 'a) list \<Rightarrow> error + 'a list" where
  "collect_results [] = Inr []"
| "collect_results (r # rs) =
     (case r of Inl e \<Rightarrow> Inl e
      | Inr v \<Rightarrow> (case collect_results rs of Inl e \<Rightarrow> Inl e | Inr vs \<Rightarrow> Inr (v # vs)))"

text \<open>\<open>rolling(window_size).apply(f, raw=True)\<close>: \<open>f\<close> on the window of every position.\<close>

definition rolling_apply ::
  "(nat list \<Rightarrow> error + nat) \<Rightarrow> int list \<Rightarrow> nat list \<Rightarrow> int \<Rightarrow> error + nat list" where
  "rolling_apply f t xs window_size =
     collect_results (map (\<lambda>i. f (window t xs window_size i)) [0..<length xs])"

subsection \<open>The notebook's functions\<close>

text \<open>
  \<^verbatim>\<open>
  def mode(alist):
      m, c = stats.mode(alist)
      m, c = m.item(), c.item()
      if c==1:
          return alist[len(alist)//2]
      return m
  \<close>
  \<open>item()\<close> of an empty array raises ValueError.
\<close>

definition mode :: "nat list \<Rightarrow> error + nat" where
  "mode alist =
     (case stats_mode alist of
        None \<Rightarrow> Inl ValueError
      | Some (m, c) \<Rightarrow> if c = 1 then Inr (alist ! (length alist div 2)) else Inr m)"

text \<open>
  \<^verbatim>\<open>
  def rolling_mode(t, y, window_size='100S'):
      y_dtype_orig = y.dtype
      y = pd.Series(y, index=t, dtype='category')
      y_code_smooth = y.cat.codes.rolling(window_size).apply(mode, raw=True).astype('int')
      y_smooth = pd.Categorical.from_codes(y_code_smooth, dtype=y.dtype)
      y_smooth = np.asarray(y_smooth, dtype=y_dtype_orig)
      return y_smooth
  \<close>
  \<open>pd.Series\<close> raises when the index and the values differ in length;
  \<open>rolling\<close> checks that the index is monotonic, and a window size whose nanoseconds
  leave the 64-bit range raises OverflowError.
\<close>

definition rolling_mode :: "int list \<Rightarrow> 'a::linorder list \<Rightarrow> int \<Rightarrow> error + 'a list" where
  "rolling_mode t y window_size =
     (if length t = length y then
        if monotonic t then
          if in_int64 (window_size * 1000000000) then
            (case rolling_apply mode t (cat_codes y) window_size of
               Inl e \<Rightarrow> Inl e
             | Inr y_code_smooth \<Rightarrow> from_codes (categories y) y_code_smooth)
          else Inl OverflowError
        else Inl ValueError
      else Inl ValueError)"


subsection \<open>Smoothing the predictions of each participant\<close>

text \<open>
  \<^verbatim>\<open>
  Y_test_pred_smooth = []
  unqP, indP = np.unique(pid_test, return_index=True)
  unqP = unqP[np.argsort(indP)]  # keep the order or else we'll scramble our arrays
  for p in unqP:
      mask = pid_test == p
      Y_test_pred_smooth.append(rolling_mode(T_test[mask], Y_test_pred[mask]))
  Y_test_pred_smooth = np.concatenate(Y_test_pred_smooth)
  \<close>
  \<open>unique_in_order\<close> is the distinct participants in the order of their first
  row; \<open>mask_select p pid xs\<close> is \<open>xs[pid == p]\<close>, which raises IndexError when
  the mask and the array differ in length. \<open>np.concatenate\<close> of an empty list
  raises ValueError.
\<close>

definition unique_in_order :: "'p list \<Rightarrow> 'p list" where
  "unique_in_order pid = rev (remdups (rev pid))"

definition mask_select :: "'p \<Rightarrow> 'p list \<Rightarrow> 'b list \<Rightarrow> 'b list" where
  "mask_select p pid xs = map snd (filter (\<lambda>(q, x). q = p) (zip pid xs))"

definition smooth_each_participant ::
  "'p list \<Rightarrow> int list \<Rightarrow> 'a::linorder list \<Rightarrow> error + 'a list" where
  "smooth_each_participant pid_test T_test Y_test_pred =
     (case collect_results
             (map (\<lambda>p. if length T_test = length pid_test
                          \<and> length Y_test_pred = length pid_test
                       then rolling_mode (mask_select p pid_test T_test)
                                         (mask_select p pid_test Y_test_pred) 100
                       else Inl IndexError)
                  (unique_in_order pid_test)) of
        Inl e \<Rightarrow> Inl e
      | Inr parts \<Rightarrow> if parts = [] then Inl ValueError else Inr (concat parts))"

subsection \<open>The call of the HMM estimator\<close>

text \<open>
  \<^verbatim>\<open>
  X_train, Y_train, T_train, pid_train = \
      X_feats[mask_train], Y[mask_train], T[mask_train], pid[mask_train]
  ...
  Y_train_prob = clf.oob_decision_function_
  labels = clf.classes_
  hmm_params = utils.train_hmm(Y_train_prob, Y_train, labels)
  \<close>
  The training rows of all participants are pooled in four aligned arrays. The
  estimator \<open>utils.train_hmm\<close> is called once with three arguments: the probability
  rows, the ground-truth labels and the classes of the classifier (the sorted distinct
  training labels). \<open>train_hmm_arguments\<close> is that argument tuple.
\<close>

record ('p, 'l) training_rows =
  pid_train :: "'p list"
  T_train :: "int list"
  Y_train :: "'l list"
  Y_train_prob :: "real list list"

definition train_hmm_arguments ::
  "('p, 'l::linorder) training_rows \<Rightarrow> real list list \<times> 'l list \<times> 'l list" where
  "train_hmm_arguments rows = (Y_train_prob rows, Y_train rows, sort (remdups (Y_train rows)))"


subsection \<open>The Viterbi decoder\<close>

text \<open>
  Modelled from the spec: \<open>utils.viterbi\<close> is defined in \<open>utils.py\<close>, which is not
  among the sources; the notebook only calls it. The model follows section 4.3 of
  the specification: validation of the observations, the score table of the
  log-domain recurrence with its backpointers, and the path read off the
  backpointers from the best final state. Scores are real numbers. The spec names
  no value for the small positive floor that replaces a zero entry before the
  logarithm, so the floor is the parameter \<open>eps\<close>.
\<close>

record 'l hmm_params =
  prior :: "real list"
  emission :: "real list list"
  transition :: "real list list"
  labels :: "'l list"

text \<open>The bundle of section 3: \<open>K\<close> distinct labels, a vector of length \<open>K\<close>, two \<open>K \<times> K\<close> matrices.\<close>

definition params_ok :: "'l hmm_params \<Rightarrow> bool" where
  "params_ok p =
     (distinct (labels p) \<and> length (prior p) = length (labels p)
      \<and> length (emission p) = length (labels p)
      \<and> list_all (\<lambda>row. length row = length (labels p)) (emission p)
      \<and> length (transition p) = length (labels p)
      \<and> list_all (\<lambda>row. length row = length (labels p)) (transition p))"

definition clipped_log :: "real \<Rightarrow> real \<Rightarrow> real" where
  "clipped_log eps x = ln (if x = 0 then eps else x)"

definition initial_scores :: "real \<Rightarrow> 'l hmm_params \<Rightarrow> nat \<Rightarrow> real list" where
  "initial_scores eps p ob =
     map (\<lambda>k. clipped_log eps (prior p ! k) + clipped_log eps (emission p ! k ! ob))
         [0..<length (labels p)]"

text \<open>For the state \<open>k\<close>, the score of arriving from every state \<open>j\<close>.\<close>

definition candidates :: "real \<Rightarrow> 'l hmm_params \<Rightarrow> real list \<Rightarrow> nat \<Rightarrow> real list" where
  "candidates eps p prev k =
     map (\<lambda>j. prev ! j + clipped_log eps (transition p ! j ! k)) [0..<length (labels p)]"

definition step_backpointers :: "real \<Rightarrow> 'l hmm_params \<Rightarrow> real list \<Rightarrow> nat list" where
  "step_backpointers eps p prev =
     map (\<lambda>k. argmax (candidates eps p prev k)) [0..<length (labels p)]"

definition step_scores :: "real \<Rightarrow> 'l hmm_params \<Rightarrow> real list \<Rightarrow> nat \<Rightarrow> real list" where
  "step_scores eps p prev ob =
     map (\<lambda>k. candidates eps p prev k ! argmax (candidates eps p prev k)
               + clipped_log eps (emission p ! k ! ob))
         [0..<length (labels p)]"

text \<open>The rows of scores and backpointers for the observations after the first.\<close>

fun forward :: "real \<Rightarrow> 'l hmm_params \<Rightarrow> real list \<Rightarrow> nat list \<Rightarrow> (real list \<times> nat list) list" where
  "forward eps p prev [] = []"
| "forward eps p prev (ob # obs) =
     (step_scores eps p prev ob, step_backpointers eps p prev)
       # forward eps p (step_scores eps p prev ob) obs"

definition score_table :: "real \<Rightarrow> 'l hmm_params \<Rightarrow> nat list \<Rightarrow> real list list" where
  "score_table eps p obs =
     initial_scores eps p (hd obs)
       # map fst (forward eps p (initial_scores eps p (hd obs)) (tl obs))"

text \<open>Row \<open>t\<close> of the backpointer table holds the backpointers of time \<open>t + 1\<close>.\<close>

definition backpointer_table :: "real \<Rightarrow> 'l hmm_params \<Rightarrow> nat list \<Rightarrow> nat list list" where
  "backpointer_table eps p obs =
     map snd (forward eps p (initial_scores eps p (hd obs)) (tl obs))"

text \<open>From a state, the states met by following the backpointer rows, latest row first.\<close>

fun backtrack :: "nat \<Rightarrow> nat list list \<Rightarrow> nat list" where
  "backtrack s [] = [s]"
| "backtrack s (bp # bps) = s # backtrack (bp ! s) bps"

definition decode_path :: "real \<Rightarrow> 'l hmm_params \<Rightarrow> nat list \<Rightarrow> nat list" where
  "decode_path eps p obs =
     rev (backtrack (argmax (last (score_table eps p obs))) (rev (backpointer_table eps p obs)))"

text \<open>
  Modelled from the spec: \<open>viterbi\<close> itself (its body is in \<open>utils.py\<close>). It fails
  with a validation error on an empty sequence and on a value that is not a label of
  the bundle; otherwise it maps the observations to their indices in \<open>labels\<close>,
  decodes and maps the states back to labels.
\<close>

definition viterbi :: "real \<Rightarrow> 'l list \<Rightarrow> 'l hmm_params \<Rightarrow> error + 'l list" where
  "viterbi eps predicted_labels p =
     (if predicted_labels = [] then Inl ValidationError
      else if list_all (\<lambda>l. l \<in> set (labels p)) predicted_labels then
        Inr (map (\<lambda>s. labels p ! s)
                 (decode_path eps p (map (\<lambda>l. index_of l (labels p)) predicted_labels)))
      else Inl ValidationError)"

subsection \<open>Notions used to state the properties\<close>

text \<open>\<open>first_max zs r\<close>: \<open>r\<close> is the first position of the maximum of \<open>zs\<close>.\<close>

definition first_max :: "'a::linorder list \<Rightarrow> nat \<Rightarrow> bool" where
  "first_max zs r =
     (r < length zs \<and> list_all (\<lambda>z. z \<le> zs ! r) zs \<and> list_all (\<lambda>z. z < zs ! r) (take r zs))"

text \<open>The timestamps that a \<open>datetime64[ns]\<close> array can hold.\<close>

definition datetime_range :: "int list \<Rightarrow> bool" where
  "datetime_range t = list_all (\<lambda>s. in_int64 (s * 1000000000)) t"

text \<open>
  The maximal frequency of a label in a window, the labels that reach it, and the
  label that \<open>mode\<close> picks when it is read on the labels instead of their codes.
\<close>

definition max_freq :: "'a list \<Rightarrow> nat" where
  "max_freq W = Max (set (map (count_list W) W))"

definition tied_labels :: "'a list \<Rightarrow> 'a list" where
  "tied_labels W = filter (\<lambda>l. count_list W l = max_freq W) W"

definition modal_label :: "'a::linorder list \<Rightarrow> 'a" where
  "modal_label W =
     (if max_freq W = 1 then W ! (length W div 2) else Min (set (tied_labels W)))"

text \<open>
  The entries at the positions up to \<open>i\<close> whose timestamp lies in the closed interval
  \<open>[t\<^sub>i - window_size, t\<^sub>i]\<close>, as the specification words the window, and in the interval
  \<open>(t\<^sub>i - window_size, t\<^sub>i]\<close> without its left endpoint.
\<close>

definition spec_closed_interval_window :: "int list \<Rightarrow> 'b list \<Rightarrow> int \<Rightarrow> nat \<Rightarrow> 'b list" where
  "spec_closed_interval_window t xs window_size i =
     map (\<lambda>j. xs ! j)
         (filter (\<lambda>j. t ! i - window_size \<le> t ! j \<and> t ! j \<le> t ! i) [0..<Suc i])"

definition half_open_interval_window :: "int list \<Rightarrow> 'b list \<Rightarrow> int \<Rightarrow> nat \<Rightarrow> 'b list" where
  "half_open_interval_window t xs window_size i =
     map (\<lambda>j. xs ! j)
         (filter (\<lambda>j. t ! i - window_size < t ! j \<and> t ! j \<le> t ! i) [0..<Suc i])"

text \<open>
  Modelled from the spec: the transition count that section 4.2 asks of \<open>train_hmm\<close>
  (whose body is in \<open>utils.py\<close>, not among the sources), the number of adjacent
  pairs \<open>(a, b)\<close> of the ground truth whose two rows belong to the same subject.
\<close>

fun spec_same_subject_transitions :: "'p list \<Rightarrow> 'l list \<Rightarrow> 'l \<Rightarrow> 'l \<Rightarrow> nat" where
  "spec_same_subject_transitions (q # q' # qs) (l # l' # ls) a b =
     (if q = q' \<and> l = a \<and> l' = b then 1 else 0)
       + spec_same_subject_transitions (q' # qs) (l' # ls) a b"
| "spec_same_subject_transitions qs ls a b = 0"


section \<open>Properties of the primitives\<close>

subsection \<open>The first maximum and the mode\<close>

lemma argmax_from_first_max:
  "first_max ys bi \<Longrightarrow> bv = ys ! bi \<Longrightarrow> i = length ys \<Longrightarrow>
   first_max (ys @ xs) (argmax_from bi bv i xs)"
proof (induction xs arbitrary: ys bi bv i)
  case Nil
  then show ?case by simp
next
  case (Cons x xs)
  show ?case
  proof (cases "bv < x")
    case True
    have "first_max (ys @ [x]) i"
      using Cons.prems True
      by (auto simp: first_max_def list_all_iff nth_append dest: in_set_takeD)
    from Cons.IH[OF this, of x "Suc i"] Cons.prems True show ?thesis
      by (simp add: nth_append)
  next
    case False
    have "first_max (ys @ [x]) bi"
      using Cons.prems False
      by (auto simp: first_max_def list_all_iff nth_append)
    moreover have "bi < length ys" using Cons.prems by (simp add: first_max_def)
    ultimately show ?thesis
      using Cons.IH[of "ys @ [x]" bi bv "Suc i"] Cons.prems False
      by (simp add: nth_append)
  qed
qed

lemma argmax_first_max: "xs \<noteq> [] \<Longrightarrow> first_max xs (argmax xs)"
proof (cases xs)
  case Nil
  then show "xs \<noteq> [] \<Longrightarrow> ?thesis" by simp
next
  case (Cons x xs')
  have "first_max [x] 0" by (simp add: first_max_def)
  from argmax_from_first_max[OF this, of x 1 xs'] Cons show ?thesis
    by (simp add: argmax_def)
qed


lemma first_maxD:
  assumes "first_max zs r"
  shows "r < length zs" "\<And>j. j < length zs \<Longrightarrow> zs ! j \<le> zs ! r" "\<And>j. j < r \<Longrightarrow> zs ! j < zs ! r"
proof -
  show r: "r < length zs" using assms by (simp add: first_max_def)
  show "\<And>j. j < length zs \<Longrightarrow> zs ! j \<le> zs ! r"
    using assms by (simp add: first_max_def list_all_length)
  show "\<And>j. j < r \<Longrightarrow> zs ! j < zs ! r"
    using assms r by (simp add: first_max_def list_all_length)
qed

lemma max_freq_ge: "x \<in> set W \<Longrightarrow> count_list W x \<le> max_freq W"
  by (simp add: max_freq_def)

lemma max_freq_attained: "W \<noteq> [] \<Longrightarrow> \<exists>x\<in>set W. count_list W x = max_freq W"
proof -
  assume "W \<noteq> []"
  then have "Max (count_list W ` set W) \<in> count_list W ` set W"
    by (intro Max_in) auto
  then show ?thesis by (auto simp: max_freq_def)
qed

lemma tied_labels_nonempty: "W \<noteq> [] \<Longrightarrow> tied_labels W \<noteq> []"
  using max_freq_attained[of W] by (auto simp: tied_labels_def filter_empty_conv)

lemma stats_mode_char:
  assumes "a \<noteq> []"
  shows "stats_mode a = Some (Min (set (tied_labels a)), max_freq a)"
proof -
  define vals where "vals = sort (remdups a)"
  define cnts where "cnts = map (count_list a) vals"
  define k where "k = argmax cnts"
  have sv: "sorted_wrt (<) vals" by (simp add: vals_def strict_sorted_iff)
  have set_vals: "set vals = set a" by (simp add: vals_def)
  have ne: "cnts \<noteq> []" using assms set_vals by (auto simp: cnts_def)
  have len: "length cnts = length vals" by (simp add: cnts_def)
  note fm = first_maxD[OF argmax_first_max[OF ne], folded k_def]
  have k: "k < length vals" using fm(1) len by simp
  have ck: "cnts ! k = count_list a (vals ! k)" using k by (simp add: cnts_def)
  have vk: "vals ! k \<in> set a" using k set_vals nth_mem by blast
  have c_eq: "cnts ! k = max_freq a"
  proof (rule antisym)
    show "cnts ! k \<le> max_freq a" using ck vk max_freq_ge by metis
    obtain x where x: "x \<in> set a" "count_list a x = max_freq a"
      using max_freq_attained[OF assms] by blast
    then obtain j where j: "j < length vals" "vals ! j = x"
      using set_vals by (metis in_set_conv_nth)
    then have "cnts ! j = max_freq a" using x by (simp add: cnts_def)
    then show "max_freq a \<le> cnts ! k" using fm(2)[of j] j len by simp
  qed
  have m_eq: "vals ! k = Min (set (tied_labels a))"
  proof (rule Min_eqI[symmetric])
    show "finite (set (tied_labels a))" by simp
    show "vals ! k \<in> set (tied_labels a)"
      using vk ck c_eq by (simp add: tied_labels_def)
    fix y assume "y \<in> set (tied_labels a)"
    then have y: "y \<in> set a" "count_list a y = max_freq a" by (auto simp: tied_labels_def)
    then obtain j where j: "j < length vals" "vals ! j = y"
      using set_vals by (metis in_set_conv_nth)
    have "\<not> j < k"
    proof
      assume "j < k"
      then have "cnts ! j < cnts ! k" by (rule fm(3))
      moreover have "cnts ! j = max_freq a" using j y by (simp add: cnts_def)
      ultimately show False using c_eq by simp
    qed
    then have "k \<le> j" by simp
    then show "vals ! k \<le> y"
      using sv j by (metis le_neq_implies_less order.refl order_less_imp_le sorted_wrt_nth_less)
  qed
  show ?thesis
    using assms m_eq c_eq by (simp add: stats_mode_def Let_def vals_def[symmetric] cnts_def[symmetric] k_def[symmetric])
qed


lemma index_of_mem: "x \<in> set cs \<Longrightarrow> index_of x cs < length cs \<and> cs ! index_of x cs = x"
  by (induction cs) auto

lemma index_of_nth: "distinct cs \<Longrightarrow> i < length cs \<Longrightarrow> index_of (cs ! i) cs = i"
proof (induction cs arbitrary: i)
  case Nil
  then show ?case by simp
next
  case (Cons c cs)
  then show ?case by (cases i) auto
qed

lemma categories_props:
  "sorted_wrt (<) (categories y)" "set (categories y) = set y" "distinct (categories y)"
  by (simp_all add: categories_def strict_sorted_iff)

lemma code_lt: "l \<in> set y \<Longrightarrow> index_of l (categories y) < length (categories y)"
  using index_of_mem[of l "categories y"] by (simp add: categories_props)

lemma code_decode: "l \<in> set y \<Longrightarrow> categories y ! index_of l (categories y) = l"
  using index_of_mem[of l "categories y"] by (simp add: categories_props)

lemma code_mono:
  assumes "l \<in> set y" "l' \<in> set y" "l \<le> l'"
  shows "index_of l (categories y) \<le> index_of l' (categories y)"
proof (rule ccontr)
  assume "\<not> ?thesis"
  then have lt: "index_of l' (categories y) < index_of l (categories y)" by simp
  have "categories y ! index_of l' (categories y) < categories y ! index_of l (categories y)"
    using sorted_wrt_nth_less[OF categories_props(1)[of y] lt] code_lt[OF assms(1)] by simp
  then show False using assms by (simp add: code_decode)
qed

lemma code_inj: "inj_on (\<lambda>l. index_of l (categories y)) (set y)"
  by (rule inj_onI) (metis code_decode)

lemma count_codes:
  assumes "set W \<subseteq> set y" "l \<in> set W"
  shows "count_list (map (\<lambda>l. index_of l (categories y)) W) (index_of l (categories y)) = count_list W l"
  by (rule count_list_inj_map[OF inj_on_subset[OF code_inj assms(1)] assms(2)])

lemma max_freq_codes:
  assumes "set W \<subseteq> set y"
  shows "max_freq (map (\<lambda>l. index_of l (categories y)) W) = max_freq W"
proof -
  have "map (count_list (map (\<lambda>l. index_of l (categories y)) W)) (map (\<lambda>l. index_of l (categories y)) W)
        = map (count_list W) W"
    using count_codes[OF assms] by (simp add: comp_def)
  then show ?thesis by (simp only: max_freq_def)
qed

lemma tied_codes:
  assumes "set W \<subseteq> set y"
  shows "tied_labels (map (\<lambda>l. index_of l (categories y)) W)
         = map (\<lambda>l. index_of l (categories y)) (tied_labels W)"
proof -
  have "filter ((\<lambda>v. count_list (map (\<lambda>l. index_of l (categories y)) W) v = max_freq W) \<circ> (\<lambda>l. index_of l (categories y))) W
        = filter (\<lambda>l. count_list W l = max_freq W) W"
    by (rule filter_cong) (simp_all add: count_codes[OF assms])
  then show ?thesis
    by (simp add: tied_labels_def max_freq_codes[OF assms] filter_map)
qed

lemma Min_codes:
  assumes "S \<noteq> []" "set S \<subseteq> set y"
  shows "Min (set (map (\<lambda>l. index_of l (categories y)) S)) = index_of (Min (set S)) (categories y)"
proof (rule Min_eqI)
  have m: "Min (set S) \<in> set S" using assms(1) by (intro Min_in) auto
  show "finite (set (map (\<lambda>l. index_of l (categories y)) S))" by simp
  show "index_of (Min (set S)) (categories y) \<in> set (map (\<lambda>l. index_of l (categories y)) S)"
    using m by auto
  fix c assume "c \<in> set (map (\<lambda>l. index_of l (categories y)) S)"
  then obtain l where l: "l \<in> set S" "c = index_of l (categories y)" by auto
  have "Min (set S) \<le> l" using l by simp
  then show "index_of (Min (set S)) (categories y) \<le> c"
    using code_mono[of "Min (set S)" y l] m l assms(2) by auto
qed

lemma tied_labels_subset: "set (tied_labels W) \<subseteq> set W"
  by (auto simp: tied_labels_def)

lemma half_lt: "W \<noteq> [] \<Longrightarrow> length W div 2 < length W"
  by (cases W) simp_all

lemma modal_label_mem:
  assumes ne: "W \<noteq> []"
  shows "modal_label W \<in> set W"
proof -
  have "set (tied_labels W) \<noteq> {}" using tied_labels_nonempty[OF ne] by simp
  then have "Min (set (tied_labels W)) \<in> set (tied_labels W)"
    by (rule Min_in[OF finite_set])
  then have a: "Min (set (tied_labels W)) \<in> set W"
    using tied_labels_subset[of W] by (rule_tac subsetD)
  have b: "W ! (length W div 2) \<in> set W" by (rule nth_mem[OF half_lt[OF ne]])
  show ?thesis
  proof (cases "max_freq W = 1")
    case True
    then have "modal_label W = W ! (length W div 2)" unfolding modal_label_def by (rule if_P)
    then show ?thesis using b by (simp only:)
  next
    case False
    then have "modal_label W = Min (set (tied_labels W))" unfolding modal_label_def by (rule if_not_P)
    then show ?thesis using a by (simp only:)
  qed
qed

lemma mode_codes:
  assumes "W \<noteq> []" "set W \<subseteq> set y"
  shows "mode (map (\<lambda>l. index_of l (categories y)) W) = Inr (index_of (modal_label W) (categories y))"
proof -
  define enc where "enc = (\<lambda>l. index_of l (categories y))"
  have ne: "map enc W \<noteq> []" using assms(1) by simp
  have t: "tied_labels (map enc W) = map enc (tied_labels W)"
    unfolding enc_def by (rule tied_codes[OF assms(2)])
  have m: "max_freq (map enc W) = max_freq W"
    unfolding enc_def by (rule max_freq_codes[OF assms(2)])
  have sub: "set (tied_labels W) \<subseteq> set y"
    using tied_labels_subset[of W] assms(2) by (rule subset_trans)
  have mn: "Min (set (map enc (tied_labels W))) = enc (Min (set (tied_labels W)))"
    unfolding enc_def by (rule Min_codes[OF tied_labels_nonempty[OF assms(1)] sub])
  have sm: "stats_mode (map enc W) = Some (enc (Min (set (tied_labels W))), max_freq W)"
    using stats_mode_char[OF ne] by (simp only: t m mn)
  have "length W div 2 < length W" by (rule half_lt[OF assms(1)])
  then have "mode (map enc W) = Inr (enc (modal_label W))"
    by (simp add: mode_def sm modal_label_def)
  then show ?thesis by (simp only: enc_def)
qed

subsection \<open>Windows and the smoothed sequence\<close>

lemma window_map: "window t (map f xs) w i = map f (window t xs w i)"
  by (simp add: window_def drop_map take_map)

lemma find_upt_Some:
  assumes "find P [a..<b] = Some j"
  shows "a \<le> j" "j < b" "P j" "\<And>k. a \<le> k \<Longrightarrow> k < j \<Longrightarrow> \<not> P k"
proof -
  from assms obtain n where n: "n < length [a..<b]" "P ([a..<b] ! n)" "j = [a..<b] ! n"
    "\<forall>m<n. \<not> P ([a..<b] ! m)"
    unfolding find_Some_iff by blast
  have nb: "a + n < b" using n(1) by simp
  have j: "j = a + n" using n(3) nb by (simp del: upt_Suc)
  show "a \<le> j" using j by simp
  show "j < b" using j nb by simp
  show "P j" using n(2) nb j by (simp del: upt_Suc)
  show "\<not> P k" if "a \<le> k" "k < j" for k
  proof -
    have "k - a < n" using that j by arith
    then have "\<not> P ([a..<b] ! (k - a))" using n(4) by blast
    moreover have "a + (k - a) < b" using that nb j by arith
    ultimately show ?thesis using that by (simp del: upt_Suc)
  qed
qed

lemma find_upt_None:
  assumes "find P [a..<b] = None" "a \<le> k" "k < b"
  shows "\<not> P k"
  using assms by (simp add: find_None_iff del: upt_Suc)

lemma window_start_le: "window_start index window_ns i \<le> i"
proof (cases i)
  case 0
  then show ?thesis by simp
next
  case (Suc n)
  show ?thesis
  proof (cases "find (\<lambda>j. 0 < start_diff index window_ns (Suc n) j)
                     [window_start index window_ns n..<Suc n]")
    case None
    then show ?thesis using Suc by (simp del: upt_Suc)
  next
    case (Some j)
    from find_upt_Some(2)[OF this] show ?thesis using Suc Some by (simp del: upt_Suc)
  qed
qed

lemma window_nonempty: "i < length xs \<Longrightarrow> window t xs w i \<noteq> []"
  using window_start_le[of "index_ns t" "w * 1000000000" i] by (simp add: window_def)

lemma set_window: "set (window t xs w i) \<subseteq> set xs"
proof -
  have "set (window t xs w i) \<subseteq> set (take (Suc i) xs)"
    unfolding window_def by (rule set_drop_subset)
  also have "\<dots> \<subseteq> set xs" by (rule set_take_subset)
  finally show ?thesis .
qed

lemma collect_results_Inr: "collect_results (map (\<lambda>i. Inr (g i)) js) = Inr (map g js)"
  by (induction js) simp_all

lemma rolling_mode_eq:
  assumes len: "length t = length y" and mono: "monotonic t"
    and rng: "in_int64 (w * 1000000000)"
  shows "rolling_mode t y w = Inr (map (\<lambda>i. modal_label (window t y w i)) [0..<length y])"
proof -
  define enc where "enc = (\<lambda>l. index_of l (categories y))"
  have step: "mode (window t (map enc y) w i) = Inr (enc (modal_label (window t y w i)))"
    if "i < length y" for i
    unfolding enc_def window_map
    by (rule mode_codes[OF window_nonempty[OF that] set_window])
  have "map (\<lambda>i. mode (window t (map enc y) w i)) [0..<length y]
        = map (\<lambda>i. Inr (enc (modal_label (window t y w i)))) [0..<length y]"
    by (rule map_cong[OF refl]) (simp add: step)
  then have ra: "rolling_apply mode t (cat_codes y) w
        = Inr (map (\<lambda>i. enc (modal_label (window t y w i))) [0..<length y])"
    by (simp only: rolling_apply_def cat_codes_def enc_def[symmetric] collect_results_Inr length_map)
  have mem: "modal_label (window t y w i) \<in> set y" if "i < length y" for i
    using modal_label_mem[OF window_nonempty[OF that], of t w] set_window[of t y w i]
    by (rule_tac subsetD)
  have all: "list_all (\<lambda>c. c < length (categories y))
               (map (\<lambda>i. enc (modal_label (window t y w i))) [0..<length y])"
    by (simp add: list_all_iff enc_def code_lt mem)
  have dec: "map (\<lambda>c. categories y ! c) (map (\<lambda>i. enc (modal_label (window t y w i))) [0..<length y])
             = map (\<lambda>i. modal_label (window t y w i)) [0..<length y]"
    by (simp add: enc_def code_decode mem)
  have fc: "from_codes (categories y) (map (\<lambda>i. enc (modal_label (window t y w i))) [0..<length y])
            = Inr (map (\<lambda>i. modal_label (window t y w i)) [0..<length y])"
    unfolding from_codes_def using all dec by (simp only: if_True)
  show ?thesis
    unfolding rolling_mode_def ra using len mono rng fc by simp
qed


lemma rolling_mode_nth:
  assumes "length t = length y" "monotonic t" "in_int64 (w * 1000000000)" "i < length y"
  shows "\<exists>ys. rolling_mode t y w = Inr ys \<and> length ys = length y
              \<and> ys ! i = modal_label (window t y w i)"
  using assms(4) by (simp add: rolling_mode_eq[OF assms(1,2,3)])

lemma rolling_mode_length_alphabet:
  assumes "length t = length y" "monotonic t" "in_int64 (w * 1000000000)" "set y \<subseteq> A"
  shows "\<exists>ys. rolling_mode t y w = Inr ys \<and> length ys = length y \<and> set ys \<subseteq> A"
proof -
  have "modal_label (window t y w i) \<in> A" if "i < length y" for i
    using modal_label_mem[OF window_nonempty[OF that], of t w] set_window[of t y w i] assms(4)
    by blast
  then show ?thesis
    by (auto simp: rolling_mode_eq[OF assms(1,2,3)])
qed

lemma count_list_distinct: "distinct W \<Longrightarrow> x \<in> set W \<Longrightarrow> count_list W x = 1"
  by (induction W) auto

lemma max_freq_distinct:
  assumes "W \<noteq> []" "distinct W"
  shows "max_freq W = 1"
proof -
  have "count_list W ` set W = {1}"
    using assms by (auto simp: count_list_distinct image_iff intro!: exI[of _ "hd W"])
  then show ?thesis by (simp add: max_freq_def)
qed

lemma strict_sorted_monotonic: "sorted_wrt (<) t \<Longrightarrow> monotonic t"
  by (simp add: monotonic_def strict_sorted_iff)

lemma window_first: "xs \<noteq> [] \<Longrightarrow> window t xs w 0 = [xs ! 0]"
  by (cases xs) (simp_all add: window_def)

lemma modal_label_single: "modal_label [x] = x"
  by (simp add: modal_label_def max_freq_def)

lemma wrap64_id: "in_int64 x \<Longrightarrow> wrap64 x = x"
  by (simp add: in_int64_def wrap64_def)

lemma growth_sign_sorted: "sorted t \<Longrightarrow> growth_sign (index_ns t) = 1"
proof (cases "t = []")
  case True
  then show ?thesis by (simp add: growth_sign_def index_ns_def)
next
  case False
  assume "sorted t"
  then have "t ! 0 \<le> t ! (length t - 1)"
    using False by (intro sorted_nth_mono) simp_all
  then have "hd t \<le> last t" using False by (simp add: hd_conv_nth last_conv_nth)
  then show ?thesis using False by (simp add: growth_sign_def index_ns_def hd_map last_map)
qed

lemma sorted_hd_le: "sorted t \<Longrightarrow> j < length t \<Longrightarrow> hd t \<le> t ! j"
  by (cases t) (auto simp: nth_Cons split: nat.splits)

lemma sorted_le_last: "sorted t \<Longrightarrow> j < length t \<Longrightarrow> t ! j \<le> last t"
proof -
  assume s: "sorted t" and j: "j < length t"
  then have ne: "t \<noteq> []" by auto
  have "t ! j \<le> t ! (length t - 1)" using s j by (intro sorted_nth_mono) simp_all
  then show ?thesis using ne by (simp add: last_conv_nth)
qed

lemma start_diff_sorted:
  assumes srt: "sorted t" and j: "j \<le> i" and i: "i < length t"
    and w: "0 < w" and rng: "datetime_range t" "in_int64 (w * 1000000000)"
    and lo: "in_int64 ((hd t - w) * 1000000000)"
    and span: "in_int64 ((hd t - last t + w) * 1000000000)"
  shows "start_diff (index_ns t) (w * 1000000000) i j
         = t ! j * 1000000000 - (t ! i * 1000000000 - w * 1000000000)"
proof -
  have ti: "in_int64 (t ! i * 1000000000)" and tj: "in_int64 (t ! j * 1000000000)"
    using rng(1) i j by (simp_all add: datetime_range_def list_all_length)
  have h: "hd t \<le> t ! j" "hd t \<le> t ! i" "t ! j \<le> t ! i" "t ! i \<le> last t"
    using srt i j sorted_hd_le[of t] sorted_le_last[of t] sorted_nth_mono[of t j i]
    by simp_all
  have sb: "in_int64 (t ! i * 1000000000 - w * 1000000000)"
    using ti lo h(2) w by (simp add: in_int64_def)
  have df: "in_int64 (t ! j * 1000000000 - (t ! i * 1000000000 - w * 1000000000))"
    using span rng(2) h w by (simp add: in_int64_def)
  have nth: "index_ns t ! i = t ! i * 1000000000" "index_ns t ! j = t ! j * 1000000000"
    using i j by (simp_all add: index_ns_def)
  show ?thesis
    unfolding start_diff_def Let_def growth_sign_sorted[OF srt] nth
    by (simp add: wrap64_id[OF rng(2)] wrap64_id[OF sb] wrap64_id[OF df])
qed

lemma window_start_sorted:
  assumes srt: "sorted t" and i: "i < length t"
    and w: "0 < w" and rng: "datetime_range t" "in_int64 (w * 1000000000)"
    and lo: "in_int64 ((hd t - w) * 1000000000)"
    and span: "in_int64 ((hd t - last t + w) * 1000000000)"
  shows "(\<forall>j < window_start (index_ns t) (w * 1000000000) i. t ! j \<le> t ! i - w)
         \<and> (\<forall>j. window_start (index_ns t) (w * 1000000000) i \<le> j \<and> j \<le> i
                 \<longrightarrow> t ! i - w < t ! j)"
  using i
proof (induction i)
  case 0
  then show ?case using w by simp
next
  case (Suc n)
  define s where "s = window_start (index_ns t) (w * 1000000000) n"
  define P where "P = (\<lambda>j. 0 < start_diff (index_ns t) (w * 1000000000) (Suc n) j)"
  have n: "n < length t" using Suc.prems by simp
  have IH1: "\<And>j. j < s \<Longrightarrow> t ! j \<le> t ! n - w"
    using Suc.IH[OF n] by (simp add: s_def)
  have step: "t ! n \<le> t ! Suc n" using srt Suc.prems by (intro sorted_nth_mono) simp_all
  have sle: "s \<le> n" unfolding s_def by (rule window_start_le)
  have Pj: "P j \<longleftrightarrow> t ! Suc n - w < t ! j" if "j \<le> Suc n" for j
    unfolding P_def start_diff_sorted[OF srt that Suc.prems w rng lo span] by arith
  have ws: "window_start (index_ns t) (w * 1000000000) (Suc n)
            = (case find P [s..<Suc n] of None \<Rightarrow> Suc n | Some j \<Rightarrow> j)"
    by (simp add: s_def P_def del: upt_Suc)
  show ?case
  proof (cases "find P [s..<Suc n]")
    case None
    have r: "window_start (index_ns t) (w * 1000000000) (Suc n) = Suc n"
      using ws None by simp
    have "t ! j \<le> t ! Suc n - w" if "j < Suc n" for j
    proof (cases "j < s")
      case True
      then show ?thesis using IH1[OF True] step by simp
    next
      case False
      then have "\<not> P j" using find_upt_None[OF None, of j] that by simp
      then show ?thesis using Pj[of j] that by simp
    qed
    then show ?thesis unfolding r using w by (auto simp: le_antisym)
  next
    case (Some r)
    have r: "window_start (index_ns t) (w * 1000000000) (Suc n) = r"
      using ws Some by simp
    note f = find_upt_Some[OF Some]
    have a: "t ! j \<le> t ! Suc n - w" if "j < r" for j
    proof (cases "j < s")
      case True
      then show ?thesis using IH1[OF True] step by simp
    next
      case False
      then have "\<not> P j" using f(4)[of j] that by simp
      then show ?thesis using Pj[of j] that f(2) by simp
    qed
    have b: "t ! Suc n - w < t ! j" if "r \<le> j" "j \<le> Suc n" for j
    proof -
      have "t ! Suc n - w < t ! r" using Pj[of r] f(2,3) by simp
      moreover have "t ! r \<le> t ! j" using srt that Suc.prems by (intro sorted_nth_mono) simp_all
      ultimately show ?thesis by simp
    qed
    show ?thesis unfolding r using a b by blast
  qed
qed

lemma map_nth_upt: "b \<le> length xs \<Longrightarrow> map (\<lambda>j. xs ! j) [a..<b] = drop a (take b xs)"
  by (intro nth_equalityI) (simp_all del: upt_Suc)

lemma window_half_open:
  assumes srt: "sorted t" and w: "0 < w" and len: "length t = length xs" and i: "i < length xs"
    and rng: "datetime_range t" "in_int64 (w * 1000000000)"
    and lo: "in_int64 ((hd t - w) * 1000000000)"
    and span: "in_int64 ((hd t - last t + w) * 1000000000)"
  shows "window t xs w i = half_open_interval_window t xs w i"
proof -
  define s where "s = window_start (index_ns t) (w * 1000000000) i"
  have it: "i < length t" using i len by simp
  note ch = window_start_sorted[OF srt it w rng lo span, folded s_def]
  have sle: "s \<le> i" unfolding s_def by (rule window_start_le)
  have le: "t ! j \<le> t ! i" if "j \<le> i" for j
    using srt that it by (intro sorted_nth_mono) simp_all
  have split: "[0..<Suc i] = [0..<s] @ [s..<Suc i]"
    using sle by (metis le_SucI le_add_diff_inverse upt_add_eq_append zero_le)
  have f1: "filter (\<lambda>j. t ! i - w < t ! j \<and> t ! j \<le> t ! i) [0..<s] = []"
    using ch by (auto simp: filter_empty_conv)
  have f2: "filter (\<lambda>j. t ! i - w < t ! j \<and> t ! j \<le> t ! i) [s..<Suc i] = [s..<Suc i]"
    using ch le by (auto simp: filter_id_conv simp del: upt_Suc)
  have "half_open_interval_window t xs w i = map (\<lambda>j. xs ! j) [s..<Suc i]"
    unfolding half_open_interval_window_def split filter_append f1 f2 by simp
  also have "\<dots> = drop s (take (Suc i) xs)"
    using i by (intro map_nth_upt) simp
  finally show ?thesis by (simp add: window_def s_def)
qed

subsection \<open>The per-participant loop\<close>

lemma mask_select_map:
  fixes pid :: "'p list" and f :: "'b \<Rightarrow> 'c"
  shows "mask_select p pid (map f xs) = map f (mask_select p pid xs)"
proof -
  define g where "g = (\<lambda>e :: 'p \<times> 'b. (fst e, f (snd e)))"
  have z: "zip pid (map f xs) = map g (zip pid xs)"
    by (simp add: zip_map2 g_def case_prod_beta)
  have c: "(\<lambda>(q, x). q = p) \<circ> g = (\<lambda>(q, x). q = p)"
    by (simp add: g_def fun_eq_iff case_prod_beta)
  have sg: "snd \<circ> g = f \<circ> snd" by (simp add: g_def fun_eq_iff)
  show ?thesis
    by (simp only: mask_select_def z filter_map c map_map sg)
qed

lemma length_mask_select:
  "length xs = length pid \<Longrightarrow> length (mask_select p pid xs) = length (filter (\<lambda>q. q = p) pid)"
proof (induction pid arbitrary: xs)
  case Nil
  then show ?case by (simp add: mask_select_def)
next
  case (Cons q pid)
  then obtain x xs' where xs: "xs = x # xs'" by (cases xs) auto
  then have "length xs' = length pid" using Cons.prems by simp
  from Cons.IH[OF this] show ?case using xs by (simp add: mask_select_def)
qed

lemma mask_select_positions:
  "set (mask_select p pid [0..<length pid]) \<subseteq> {j. j < length pid \<and> pid ! j = p}"
  by (auto simp: mask_select_def in_set_zip)

lemma mask_select_window:
  assumes "length Y = length pid" "i < length (mask_select p pid Y)"
  shows "window (mask_select p pid T) (mask_select p pid Y) w i
         = map (\<lambda>j. Y ! j)
               (window (mask_select p pid T) (mask_select p pid [0..<length pid]) w i)"
    and "list_all (\<lambda>j. j < length pid \<and> pid ! j = p)
               (window (mask_select p pid T) (mask_select p pid [0..<length pid]) w i)"
proof -
  have Y: "Y = map (\<lambda>j. Y ! j) [0..<length pid]"
    using map_nth[of Y] assms(1) by simp
  have i: "i < length (mask_select p pid [0..<length pid])"
    using assms by (simp add: length_mask_select)
  have "mask_select p pid Y = map (\<lambda>j. Y ! j) (mask_select p pid [0..<length pid])"
    using Y mask_select_map[of p pid "\<lambda>j. Y ! j" "[0..<length pid]"] by simp
  then show "window (mask_select p pid T) (mask_select p pid Y) w i
         = map (\<lambda>j. Y ! j)
               (window (mask_select p pid T) (mask_select p pid [0..<length pid]) w i)"
    using window_map[of "mask_select p pid T" "\<lambda>j. Y ! j" "mask_select p pid [0..<length pid]" w i]
    by simp
  show "list_all (\<lambda>j. j < length pid \<and> pid ! j = p)
               (window (mask_select p pid T) (mask_select p pid [0..<length pid]) w i)"
    using set_window[of "mask_select p pid T" "mask_select p pid [0..<length pid]" w i]
      mask_select_positions[of p pid]
    by (auto simp: list_all_iff)
qed

lemma collect_results_cong_Inr:
  assumes "\<And>x. x \<in> set xs \<Longrightarrow> f x = Inr (g x)"
  shows "collect_results (map f xs) = Inr (map g xs)"
proof -
  have "map f xs = map (\<lambda>x. Inr (g x)) xs" by (rule map_cong[OF refl]) (rule assms)
  then show ?thesis by (simp only: collect_results_Inr)
qed

lemma unique_in_order_nonempty: "pid \<noteq> [] \<Longrightarrow> unique_in_order pid \<noteq> []"
proof -
  assume "pid \<noteq> []"
  then have "set (rev (remdups (rev pid))) \<noteq> {}" by simp
  then show ?thesis unfolding unique_in_order_def by (simp only: set_empty) simp
qed

lemma smooth_each_participant_eq:
  assumes "length T = length pid" "length Y = length pid" "pid \<noteq> []"
    and "list_all (\<lambda>p. monotonic (mask_select p pid T)) (unique_in_order pid)"
  shows "smooth_each_participant pid T Y
         = Inr (concat (map (\<lambda>p. map (\<lambda>i. modal_label (window (mask_select p pid T)
                                                              (mask_select p pid Y) 100 i))
                                       [0..<length (mask_select p pid Y)])
                            (unique_in_order pid)))"
proof -
  have r: "in_int64 (100 * 1000000000)" by (simp add: in_int64_def)
  have "(if length T = length pid \<and> length Y = length pid
         then rolling_mode (mask_select p pid T) (mask_select p pid Y) 100
         else Inl IndexError)
        = Inr (map (\<lambda>i. modal_label (window (mask_select p pid T) (mask_select p pid Y) 100 i))
                   [0..<length (mask_select p pid Y)])"
    if "p \<in> set (unique_in_order pid)" for p
  proof -
    have l: "length (mask_select p pid T) = length (mask_select p pid Y)"
      using assms(1,2) by (simp add: length_mask_select)
    have m: "monotonic (mask_select p pid T)"
      using assms(4) that by (simp add: list_all_iff)
    show ?thesis using assms(1,2) by (simp add: rolling_mode_eq[OF l m r])
  qed
  from collect_results_cong_Inr[of "unique_in_order pid", OF this]
  show ?thesis
    using unique_in_order_nonempty[OF assms(3)] by (simp add: smooth_each_participant_def)
qed

subsection \<open>The failing paths and the wrap-around at concrete inputs\<close>

text \<open>
  A window size of 9223372037 seconds does not fit 64 bits of nanoseconds, and
  \<open>rolling_mode\<close> raises OverflowError; 9223372036 seconds still fit.
\<close>

lemma rolling_mode_window_overflow:
  "rolling_mode [0, 10, 20] [''a'', ''a'', ''b''] 9223372037 = Inl OverflowError
   \<and> rolling_mode [0, 10, 20] [''a'', ''a'', ''b''] 9223372036 = Inr [''a'', ''a'', ''a'']"
  by code_simp

text \<open>
  When the time span reaches \<open>2\<^sup>6\<^sup>3\<close> nanoseconds, \<open>index[j] - start_bound\<close> wraps
  around to a positive value: with a window of 100 seconds the window of the last
  position still starts at the first entry, 9.4 billion seconds earlier.
\<close>

lemma window_wraps_around:
  "window [- 4700000000, - 4699999990, 4700000000] [''a'', ''a'', ''b''] 100 2
     = [''a'', ''a'', ''b'']
   \<and> rolling_mode [- 4700000000, - 4699999990, 4700000000] [''a'', ''a'', ''b''] 100
     = Inr [''a'', ''a'', ''a'']"
  by code_simp

text \<open>
  Without participants there is nothing to concatenate, and the loop over the
  participants raises ValueError, whatever the other two arrays hold; a mask of the
  wrong length raises IndexError.
\<close>

lemma smooth_each_participant_failures:
  "smooth_each_participant ([] :: string list) [] ([] :: string list) = Inl ValueError
   \<and> smooth_each_participant ([] :: string list) [0] [''a''] = Inl ValueError
   \<and> smooth_each_participant [''P101''] [0, 30] [''a''] = Inl IndexError"
  by code_simp


section \<open>Properties of the Viterbi decoder\<close>

lemma argmax_less: "xs \<noteq> [] \<Longrightarrow> argmax xs < length xs"
  by (rule first_maxD(1)[OF argmax_first_max])

lemma argmax_Max: 
  assumes "xs \<noteq> []"
  shows "xs ! argmax xs = Max (set xs)"
proof (rule Max_eqI[symmetric])
  show "finite (set xs)" by simp
  show "xs ! argmax xs \<in> set xs" by (rule nth_mem[OF argmax_less[OF assms]])
  fix y assume "y \<in> set xs"
  then obtain j where "j < length xs" "xs ! j = y" by (metis in_set_conv_nth)
  then show "y \<le> xs ! argmax xs"
    using first_maxD(2)[OF argmax_first_max[OF assms], of j] by simp
qed

lemma length_candidates: "length (candidates eps p prev k) = length (labels p)"
  by (simp add: candidates_def)

lemma length_step_scores: "length (step_scores eps p prev ob) = length (labels p)"
  by (simp add: step_scores_def)

lemma length_step_backpointers: "length (step_backpointers eps p prev) = length (labels p)"
  by (simp add: step_backpointers_def)

lemma step_backpointers_less:
  assumes "k < length (labels p)"
  shows "step_backpointers eps p prev ! k < length (labels p)"
proof -
  have "candidates eps p prev k \<noteq> []" using assms by (auto simp: candidates_def)
  from argmax_less[OF this] show ?thesis
    using assms by (simp add: step_backpointers_def length_candidates)
qed

lemma length_forward: "length (forward eps p prev obs) = length obs"
  by (induction obs arbitrary: prev) simp_all

lemma forward_rows:
  "r \<in> set (forward eps p prev obs) \<Longrightarrow>
   length (fst r) = length (labels p) \<and> list_all (\<lambda>b. b < length (labels p)) (snd r)"
proof (induction obs arbitrary: prev)
  case Nil
  then show ?case by simp
next
  case (Cons ob obs)
  have "list_all (\<lambda>b. b < length (labels p)) (step_backpointers eps p prev)"
    by (simp add: list_all_length length_step_backpointers step_backpointers_less)
  then show ?case using Cons by (auto simp: length_step_scores)
qed

lemma length_backtrack: "length (backtrack s bps) = Suc (length bps)"
  by (induction bps arbitrary: s) simp_all

lemma backtrack_states:
  assumes "s < K" "list_all (\<lambda>bp. list_all (\<lambda>b. b < K) bp \<and> length bp = K) bps"
  shows "list_all (\<lambda>x. x < K) (backtrack s bps)"
  using assms
proof (induction bps arbitrary: s)
  case Nil
  then show ?case by simp
next
  case (Cons bp bps)
  from Cons.prems have bp: "list_all (\<lambda>b. b < K) bp" "length bp = K"
    and rest: "list_all (\<lambda>bp. list_all (\<lambda>b. b < K) bp \<and> length bp = K) bps"
    by simp_all
  have "bp ! s < K" using bp Cons.prems(1) by (simp add: list_all_length)
  from Cons.IH[OF this rest] show ?case using Cons.prems(1) by simp
qed

lemma length_score_table: "length (score_table eps p obs) = Suc (length (tl obs))"
  by (simp add: score_table_def length_forward)

lemma length_backpointer_table: "length (backpointer_table eps p obs) = length (tl obs)"
  by (simp add: backpointer_table_def length_forward)

lemma score_table_rows: "row \<in> set (score_table eps p obs) \<Longrightarrow> length row = length (labels p)"
  by (auto simp: score_table_def initial_scores_def dest: forward_rows)

lemma backpointer_table_rows:
  "list_all (\<lambda>bp. list_all (\<lambda>b. b < length (labels p)) bp \<and> length bp = length (labels p))
            (backpointer_table eps p obs)"
proof -
  have "length (snd r) = length (labels p)" if "r \<in> set (forward eps p prev os)" for r prev os
    using that by (induction os arbitrary: prev) (auto simp: length_step_backpointers)
  then show ?thesis
    by (auto simp: backpointer_table_def list_all_iff dest: forward_rows)
qed

lemma length_decode_path: "length (decode_path eps p obs) = Suc (length (tl obs))"
  by (simp add: decode_path_def length_backtrack length_backpointer_table)

lemma decode_path_states:
  assumes "labels p \<noteq> []"
  shows "list_all (\<lambda>s. s < length (labels p)) (decode_path eps p obs)"
proof -
  have "last (score_table eps p obs) \<in> set (score_table eps p obs)"
    by (rule last_in_set) (simp add: score_table_def)
  then have len: "length (last (score_table eps p obs)) = length (labels p)"
    by (rule score_table_rows)
  then have "last (score_table eps p obs) \<noteq> []" using assms by auto
  from argmax_less[OF this] have fin: "argmax (last (score_table eps p obs)) < length (labels p)"
    by (simp add: len)
  have "list_all (\<lambda>bp. list_all (\<lambda>b. b < length (labels p)) bp \<and> length bp = length (labels p))
            (rev (backpointer_table eps p obs))"
    using backpointer_table_rows[of p eps obs] by (simp add: list_all_iff)
  from backtrack_states[OF fin this] show ?thesis
    by (simp add: decode_path_def list_all_iff)
qed

lemma viterbi_valid:
  assumes "predicted \<noteq> []" "set predicted \<subseteq> set (labels p)"
  shows "viterbi eps predicted p
         = Inr (map (\<lambda>s. labels p ! s)
                    (decode_path eps p (map (\<lambda>l. index_of l (labels p)) predicted)))"
  using assms by (simp add: viterbi_def list_all_iff subset_iff)

lemma viterbi_length_alphabet:
  assumes "predicted \<noteq> []" "set predicted \<subseteq> set (labels p)"
  shows "\<exists>zs. viterbi eps predicted p = Inr zs \<and> length zs = length predicted
              \<and> set zs \<subseteq> set (labels p)"
proof -
  have ne: "labels p \<noteq> []" using assms by (cases predicted) auto
  have l: "Suc (length (tl predicted)) = length predicted" using assms(1) by (cases predicted) simp_all
  have "set (map (\<lambda>s. labels p ! s) (decode_path eps p obs)) \<subseteq> set (labels p)" for obs
    using decode_path_states[OF ne, of eps obs] by (auto simp: list_all_iff)
  then show ?thesis
    unfolding viterbi_valid[OF assms] using l by (simp add: length_decode_path)
qed

lemma viterbi_invalid:
  "viterbi eps predicted p = Inl ValidationError
     \<longleftrightarrow> \<not> (predicted \<noteq> [] \<and> set predicted \<subseteq> set (labels p))"
  by (auto simp: viterbi_def list_all_iff)

lemma forward_nth:
  "n < length obs \<Longrightarrow>
   forward eps p prev obs ! n
     = (step_scores eps p ((prev # map fst (forward eps p prev obs)) ! n) (obs ! n),
        step_backpointers eps p ((prev # map fst (forward eps p prev obs)) ! n))"
proof (induction obs arbitrary: prev n)
  case Nil
  then show ?case by simp
next
  case (Cons ob obs)
  show ?case
  proof (cases n)
    case 0
    then show ?thesis by simp
  next
    case (Suc m)
    then have "m < length obs" using Cons.prems by simp
    from Cons.IH[OF this, of "step_scores eps p prev ob"] Suc show ?thesis by simp
  qed
qed

lemma score_table_0: "score_table eps p obs ! 0 = initial_scores eps p (hd obs)"
  by (simp add: score_table_def)

lemma score_table_Suc:
  assumes "Suc n < length obs"
  shows "score_table eps p obs ! Suc n = step_scores eps p (score_table eps p obs ! n) (obs ! Suc n)"
proof -
  have n: "n < length (tl obs)" using assms by simp
  have "tl obs ! n = obs ! Suc n" using assms by (simp add: nth_tl)
  then show ?thesis
    using forward_nth[OF n, of eps p "initial_scores eps p (hd obs)"] n
    by (simp add: score_table_def length_forward)
qed

lemma backpointer_table_nth:
  assumes "Suc n < length obs"
  shows "backpointer_table eps p obs ! n = step_backpointers eps p (score_table eps p obs ! n)"
proof -
  have n: "n < length (tl obs)" using assms by simp
  show ?thesis
    using forward_nth[OF n, of eps p "initial_scores eps p (hd obs)"] n
    by (simp add: score_table_def backpointer_table_def length_forward)
qed

lemma set_candidates:
  "set (candidates eps p prev k)
   = (\<lambda>j. prev ! j + clipped_log eps (transition p ! j ! k)) ` {..<length (labels p)}"
  by (auto simp: candidates_def)

lemma step_scores_nth:
  assumes "k < length (labels p)"
  shows "step_scores eps p prev ob ! k
         = Max ((\<lambda>j. prev ! j + clipped_log eps (transition p ! j ! k)) ` {..<length (labels p)})
           + clipped_log eps (emission p ! k ! ob)"
proof -
  have "candidates eps p prev k \<noteq> []" using assms by (auto simp: candidates_def)
  from argmax_Max[OF this] show ?thesis
    using assms by (simp add: step_scores_def set_candidates)
qed

lemma step_backpointers_nth:
  assumes "k < length (labels p)"
  shows "prev ! (step_backpointers eps p prev ! k)
           + clipped_log eps (transition p ! (step_backpointers eps p prev ! k) ! k)
         = Max ((\<lambda>j. prev ! j + clipped_log eps (transition p ! j ! k)) ` {..<length (labels p)})"
proof -
  have ne: "candidates eps p prev k \<noteq> []" using assms by (auto simp: candidates_def)
  have b: "argmax (candidates eps p prev k) < length (labels p)"
    using argmax_less[OF ne] by (simp add: length_candidates)
  have "candidates eps p prev k ! argmax (candidates eps p prev k)
        = prev ! argmax (candidates eps p prev k)
          + clipped_log eps (transition p ! argmax (candidates eps p prev k) ! k)"
    using b by (simp add: candidates_def)
  then show ?thesis
    using argmax_Max[OF ne] assms by (simp add: step_backpointers_def set_candidates)
qed

lemma backtrack_0: "backtrack s bps ! 0 = s"
  by (cases bps) simp_all

lemma backtrack_Suc:
  "n < length bps \<Longrightarrow> backtrack s bps ! Suc n = bps ! n ! (backtrack s bps ! n)"
proof (induction bps arbitrary: s n)
  case Nil
  then show ?case by simp
next
  case (Cons bp bps)
  show ?case
  proof (cases n)
    case 0
    then show ?thesis by (simp add: backtrack_0)
  next
    case (Suc m)
    then have "m < length bps" using Cons.prems by simp
    from Cons.IH[OF this, of "bp ! s"] Suc show ?thesis by simp
  qed
qed

lemma decode_path_last:
  assumes "obs \<noteq> []"
  shows "decode_path eps p obs ! (length obs - 1) = argmax (score_table eps p obs ! (length obs - 1))"
proof -
  define B where "B = backtrack (argmax (last (score_table eps p obs))) (rev (backpointer_table eps p obs))"
  have lB: "length B = length obs"
    using assms by (cases obs) (simp_all add: B_def length_backtrack length_backpointer_table)
  have "rev B ! (length obs - 1) = B ! 0"
    using lB assms by (simp add: rev_nth)
  moreover have "last (score_table eps p obs) = score_table eps p obs ! (length obs - 1)"
  proof -
    have ls: "length (score_table eps p obs) = length obs"
      using assms by (cases obs) (simp_all add: length_score_table)
    have "score_table eps p obs \<noteq> []" by (simp add: score_table_def)
    from last_conv_nth[OF this] show ?thesis by (simp only: ls)
  qed
  ultimately show ?thesis
    by (simp add: decode_path_def B_def[symmetric]) (simp add: B_def backtrack_0)
qed

lemma decode_path_step:
  assumes "0 < n" "n < length obs"
  shows "decode_path eps p obs ! (n - 1) = backpointer_table eps p obs ! (n - 1) ! (decode_path eps p obs ! n)"
proof -
  define bpt where "bpt = backpointer_table eps p obs"
  define B where "B = backtrack (argmax (last (score_table eps p obs))) (rev bpt)"
  have lb: "length bpt = length obs - 1"
    by (simp add: bpt_def length_backpointer_table)
  have lB: "length B = length obs"
    using assms by (simp add: B_def length_backtrack lb)
  define m where "m = length obs - 1 - n"
  have m: "m < length (rev bpt)" using assms by (simp add: m_def lb)
  have i1: "rev B ! (n - 1) = B ! Suc m"
    using assms lB by (simp add: rev_nth m_def Suc_diff_Suc)
  have i2: "rev B ! n = B ! m"
    using assms lB by (simp add: rev_nth m_def)
  have idx: "length bpt - Suc m = n - 1"
    using assms unfolding lb m_def by arith
  have i3: "rev bpt ! m = bpt ! (n - 1)"
    using m by (simp add: rev_nth idx)
  have st: "B ! Suc m = rev bpt ! m ! (B ! m)"
    unfolding B_def by (rule backtrack_Suc[OF m])
  have dp: "decode_path eps p obs = rev B"
    by (simp add: decode_path_def B_def bpt_def)
  show ?thesis
    unfolding dp bpt_def[symmetric] using st by (simp only: i1 i2 i3)
qed

lemma score_table_initial:
  assumes "obs \<noteq> []" "k < length (labels p)"
  shows "score_table eps p obs ! 0 ! k
         = clipped_log eps (prior p ! k) + clipped_log eps (emission p ! k ! (obs ! 0))"
  using assms by (simp add: score_table_0 initial_scores_def hd_conv_nth)

lemma score_table_recurrence:
  assumes "0 < t" "t < length obs" "k < length (labels p)"
  shows "score_table eps p obs ! t ! k
         = Max ((\<lambda>j. score_table eps p obs ! (t - 1) ! j
                       + clipped_log eps (transition p ! j ! k)) ` {..<length (labels p)})
           + clipped_log eps (emission p ! k ! (obs ! t))"
proof -
  obtain n where t: "t = Suc n" using assms(1) by (cases t) auto
  show ?thesis
    using assms(2) unfolding t
    by (simp add: score_table_Suc step_scores_nth[OF assms(3)])
qed

lemma backpointer_argmax:
  assumes "0 < t" "t < length obs" "k < length (labels p)"
  shows "backpointer_table eps p obs ! (t - 1) ! k < length (labels p)"
    and "score_table eps p obs ! (t - 1) ! (backpointer_table eps p obs ! (t - 1) ! k)
           + clipped_log eps (transition p ! (backpointer_table eps p obs ! (t - 1) ! k) ! k)
         = Max ((\<lambda>j. score_table eps p obs ! (t - 1) ! j
                       + clipped_log eps (transition p ! j ! k)) ` {..<length (labels p)})"
proof -
  obtain n where t: "t = Suc n" using assms(1) by (cases t) auto
  have bp: "backpointer_table eps p obs ! (t - 1)
            = step_backpointers eps p (score_table eps p obs ! (t - 1))"
    using assms(2) unfolding t by (simp add: backpointer_table_nth)
  show "backpointer_table eps p obs ! (t - 1) ! k < length (labels p)"
    unfolding bp by (rule step_backpointers_less[OF assms(3)])
  show "score_table eps p obs ! (t - 1) ! (backpointer_table eps p obs ! (t - 1) ! k)
           + clipped_log eps (transition p ! (backpointer_table eps p obs ! (t - 1) ! k) ! k)
         = Max ((\<lambda>j. score_table eps p obs ! (t - 1) ! j
                       + clipped_log eps (transition p ! j ! k)) ` {..<length (labels p)})"
    unfolding bp by (rule step_backpointers_nth[OF assms(3)])
qed

lemma final_state_best:
  assumes "obs \<noteq> []" "labels p \<noteq> []"
  shows "score_table eps p obs ! (length obs - 1) ! (decode_path eps p obs ! (length obs - 1))
         = Max (set (score_table eps p obs ! (length obs - 1)))"
proof -
  have "length obs - 1 < length (score_table eps p obs)"
    using assms(1) by (cases obs) (simp_all add: length_score_table)
  then have "score_table eps p obs ! (length obs - 1) \<in> set (score_table eps p obs)"
    by (rule nth_mem)
  then have "length (score_table eps p obs ! (length obs - 1)) = length (labels p)"
    by (rule score_table_rows)
  then have "score_table eps p obs ! (length obs - 1) \<noteq> []" using assms(2) by auto
  from argmax_Max[OF this] show ?thesis
    by (simp only: decode_path_last[OF assms(1)])
qed

section \<open>The properties of the specification\<close>

text \<open>
  C1. On every valid input, \<open>rolling_mode\<close> (timestamps and labels of equal length,
  timestamps monotonic and within the range of \<open>datetime64[ns]\<close>, a positive window
  size whose nanoseconds fit 64 bits, labels drawn from the alphabet \<open>A\<close>) and
  \<open>viterbi\<close> (a well-formed parameter bundle, a non-empty sequence of labels of the
  bundle) return a sequence of the same length as the input labels, every value of
  which is drawn from the alphabet.
\<close>

theorem C1_same_length_known_alphabet:
  "(length t = length y \<and> monotonic t \<and> datetime_range t
      \<and> 0 < w \<and> in_int64 (w * 1000000000) \<and> set y \<subseteq> A
      \<longrightarrow> (\<exists>ys. rolling_mode t y w = Inr ys \<and> length ys = length y \<and> set ys \<subseteq> A))
   \<and> (params_ok p \<and> predicted \<noteq> [] \<and> set predicted \<subseteq> set (labels p)
      \<longrightarrow> (\<exists>zs. viterbi eps predicted p = Inr zs \<and> length zs = length predicted
                 \<and> set zs \<subseteq> set (labels p)))"
  using rolling_mode_length_alphabet[of t y w A] viterbi_length_alphabet[of predicted p eps]
  by blast

theorem C1_same_length_known_alphabet_witness:
  "(\<exists>ys. rolling_mode [0, 10, 20, 30, 40] [''sleep'', ''sleep'', ''walk'', ''sleep'', ''sleep''] 30
            = Inr ys
          \<and> length ys = 5 \<and> set ys \<subseteq> {''sleep'', ''walk'', ''bicycling''})
   \<and> (\<exists>zs. viterbi (1 / 10 ^ 16) [''A'', ''A'', ''B'', ''A'', ''A'']
               \<lparr>prior = [1 / 2, 1 / 2], emission = [[1, 0], [0, 1]],
                transition = [[9 / 10, 1 / 10], [1 / 10, 9 / 10]], labels = [''A'', ''B'']\<rparr>
            = Inr zs
          \<and> length zs = 5 \<and> set zs \<subseteq> {''A'', ''B''})"
proof -
  have m: "monotonic [0, 10, 20, 30, 40]" by code_simp
  have d: "datetime_range [0, 10, 20, 30, 40]" by code_simp
  have r: "in_int64 (30 * 1000000000)" by code_simp
  have ok: "params_ok \<lparr>prior = [1 / 2, 1 / 2], emission = [[1, 0], [0, 1]],
                transition = [[9 / 10, 1 / 10], [1 / 10, 9 / 10]], labels = [''A'', ''B'']\<rparr>"
    by (simp add: params_ok_def)
  show ?thesis
    using C1_same_length_known_alphabet[of "[0, 10, 20, 30, 40]"
        "[''sleep'', ''sleep'', ''walk'', ''sleep'', ''sleep'']"
        30 "{''sleep'', ''walk'', ''bicycling''}"
        "\<lparr>prior = [1 / 2, 1 / 2], emission = [[1, 0], [0, 1]],
                transition = [[9 / 10, 1 / 10], [1 / 10, 9 / 10]], labels = [''A'', ''B'']\<rparr>"
        "[''A'', ''A'', ''B'', ''A'', ''A'']" "1 / 10 ^ 16"] m d r ok
    by (simp add: numeral_eq_Suc)
qed

text \<open>
  C2, as stated, fails for \<open>train_hmm\<close>: the notebook hands it the pooled ground
  truth and no subject identifiers. Two training sets with the same labels
  \<open>[sleep, walk]\<close>: in the first both rows belong to one subject, in the second the
  subject changes between them. The transition count of the specification for
  \<open>sleep \<rightarrow> walk\<close> is 1 in the first and 0 in the second, while \<open>train_hmm\<close>
  receives the same arguments for both. So no function of these arguments, whatever
  its body, yields the within-subject transition count on every training set.
\<close>

theorem C2_train_hmm_counterexample:
  "train_hmm_arguments \<lparr>pid_train = [''P001'', ''P001''], T_train = [0, 30],
                        Y_train = [''sleep'', ''walk''], Y_train_prob = [[1, 0], [0, 1]]\<rparr>
     = train_hmm_arguments \<lparr>pid_train = [''P001'', ''P002''], T_train = [0, 30],
                        Y_train = [''sleep'', ''walk''], Y_train_prob = [[1, 0], [0, 1]]\<rparr>
   \<and> spec_same_subject_transitions [''P001'', ''P001''] [''sleep'', ''walk''] ''sleep'' ''walk'' = 1
   \<and> spec_same_subject_transitions [''P001'', ''P002''] [''sleep'', ''walk''] ''sleep'' ''walk'' = 0
   \<and> \<not> (\<exists>transition_count :: real list list \<times> string list \<times> string list \<Rightarrow> nat.
          \<forall>rows :: (string, string) training_rows.
            transition_count (train_hmm_arguments rows)
              = spec_same_subject_transitions (pid_train rows) (Y_train rows) ''sleep'' ''walk'')"
proof -
  define one :: "(string, string) training_rows" where
    "one = \<lparr>pid_train = [''P001'', ''P001''], T_train = [0, 30],
            Y_train = [''sleep'', ''walk''], Y_train_prob = [[1, 0], [0, 1]]\<rparr>"
  define two :: "(string, string) training_rows" where
    "two = \<lparr>pid_train = [''P001'', ''P002''], T_train = [0, 30],
            Y_train = [''sleep'', ''walk''], Y_train_prob = [[1, 0], [0, 1]]\<rparr>"
  have args: "train_hmm_arguments one = train_hmm_arguments two"
    by (simp add: train_hmm_arguments_def one_def two_def)
  have c1: "spec_same_subject_transitions (pid_train one) (Y_train one) ''sleep'' ''walk'' = 1"
    by (simp add: one_def)
  have c2: "spec_same_subject_transitions (pid_train two) (Y_train two) ''sleep'' ''walk'' = 0"
    by (simp add: two_def)
  have no: "\<not> (\<exists>transition_count :: real list list \<times> string list \<times> string list \<Rightarrow> nat.
          \<forall>rows :: (string, string) training_rows.
            transition_count (train_hmm_arguments rows)
              = spec_same_subject_transitions (pid_train rows) (Y_train rows) ''sleep'' ''walk'')"
  proof
    assume "\<exists>transition_count :: real list list \<times> string list \<times> string list \<Rightarrow> nat.
          \<forall>rows :: (string, string) training_rows.
            transition_count (train_hmm_arguments rows)
              = spec_same_subject_transitions (pid_train rows) (Y_train rows) ''sleep'' ''walk''"
    then obtain f :: "real list list \<times> string list \<times> string list \<Rightarrow> nat" where
      f: "\<And>rows :: (string, string) training_rows. f (train_hmm_arguments rows)
            = spec_same_subject_transitions (pid_train rows) (Y_train rows) ''sleep'' ''walk''"
      by blast
    have "f (train_hmm_arguments one) = 1" using f[of one] c1 by simp
    moreover have "f (train_hmm_arguments two) = 0" using f[of two] c2 by simp
    ultimately show False using args by simp
  qed
  show ?thesis
    using args c1 c2 no unfolding one_def two_def by simp
qed

text \<open>
  C2, amended. The loop over the participants smooths the rows of each participant
  on their own: every window that \<open>rolling_mode\<close> sees there is made of rows of one
  participant and never spans two subjects. The arguments of \<open>train_hmm\<close> are the
  pooled probability rows, the pooled ground truth and the classes; they do not
  depend on the subject identifiers.
\<close>

theorem C2_subject_boundary:
  assumes "length T = length pid" and "length Y = length pid"
    and "list_all (\<lambda>p. monotonic (mask_select p pid T)) (unique_in_order pid)"
    and "i < length (mask_select p pid Y)"
  shows "smooth_each_participant pid T Y
           = Inr (concat (map (\<lambda>p. map (\<lambda>i. modal_label (window (mask_select p pid T)
                                                                (mask_select p pid Y) 100 i))
                                         [0..<length (mask_select p pid Y)])
                              (unique_in_order pid)))
         \<and> window (mask_select p pid T) (mask_select p pid Y) 100 i
           = map (\<lambda>j. Y ! j)
                 (window (mask_select p pid T) (mask_select p pid [0..<length pid]) 100 i)
         \<and> list_all (\<lambda>j. j < length pid \<and> pid ! j = p)
                 (window (mask_select p pid T) (mask_select p pid [0..<length pid]) 100 i)
         \<and> train_hmm_arguments (rows\<lparr>pid_train := other_pid\<rparr>) = train_hmm_arguments rows"
proof -
  have "train_hmm_arguments (rows\<lparr>pid_train := other_pid\<rparr>) = train_hmm_arguments rows"
    by (simp add: train_hmm_arguments_def)
  moreover have "pid \<noteq> []" using assms(4) by (auto simp: mask_select_def)
  ultimately show ?thesis
    using smooth_each_participant_eq[OF assms(1,2) _ assms(3)]
      mask_select_window[OF assms(2,4), of T 100]
    by simp
qed

theorem C2_subject_boundary_witness:
  "smooth_each_participant [''P101'', ''P101'', ''P102'', ''P102''] [0, 30, 0, 30]
       [''sleep'', ''sleep'', ''walk'', ''walk'']
     = Inr [''sleep'', ''sleep'', ''walk'', ''walk'']
   \<and> window (mask_select ''P102'' [''P101'', ''P101'', ''P102'', ''P102''] [0, 30, 0, 30])
        (mask_select ''P102'' [''P101'', ''P101'', ''P102'', ''P102'']
           [0..<length [''P101'', ''P101'', ''P102'', ''P102'']]) 100 1 = [2, 3]
   \<and> list_all (\<lambda>j. j < length [''P101'', ''P101'', ''P102'', ''P102'']
                   \<and> [''P101'', ''P101'', ''P102'', ''P102''] ! j = ''P102'')
        (window (mask_select ''P102'' [''P101'', ''P101'', ''P102'', ''P102''] [0, 30, 0, 30])
           (mask_select ''P102'' [''P101'', ''P101'', ''P102'', ''P102'']
              [0..<length [''P101'', ''P101'', ''P102'', ''P102'']]) 100 1)"
proof -
  have h1: "length [0, 30, 0, 30 :: int] = length [''P101'', ''P101'', ''P102'', ''P102'']"
    by simp
  have h2: "length [''sleep'', ''sleep'', ''walk'', ''walk'']
            = length [''P101'', ''P101'', ''P102'', ''P102'']"
    by simp
  have h3: "list_all (\<lambda>p. monotonic (mask_select p [''P101'', ''P101'', ''P102'', ''P102'']
                                           [0, 30, 0, 30]))
              (unique_in_order [''P101'', ''P101'', ''P102'', ''P102''])"
    by code_simp
  have h4: "1 < length (mask_select ''P102'' [''P101'', ''P101'', ''P102'', ''P102'']
                          [''sleep'', ''sleep'', ''walk'', ''walk''])"
    by code_simp
  have s: "smooth_each_participant [''P101'', ''P101'', ''P102'', ''P102''] [0, 30, 0, 30]
       [''sleep'', ''sleep'', ''walk'', ''walk'']
     = Inr [''sleep'', ''sleep'', ''walk'', ''walk'']"
    by code_simp
  have wp: "window (mask_select ''P102'' [''P101'', ''P101'', ''P102'', ''P102''] [0, 30, 0, 30])
        (mask_select ''P102'' [''P101'', ''P101'', ''P102'', ''P102'']
           [0..<length [''P101'', ''P101'', ''P102'', ''P102'']]) 100 1 = [2, 3]"
    by code_simp
  note th = C2_subject_boundary[where
        rows = "\<lparr>pid_train = [''P001''], T_train = [0], Y_train = [''sleep''],
                Y_train_prob = [[1]]\<rparr>"
        and other_pid = "[''P002'']", OF h1 h2 h3 h4]
  from th have "list_all (\<lambda>j. j < length [''P101'', ''P101'', ''P102'', ''P102'']
                   \<and> [''P101'', ''P101'', ''P102'', ''P102''] ! j = ''P102'')
        (window (mask_select ''P102'' [''P101'', ''P101'', ''P102'', ''P102''] [0, 30, 0, 30])
           (mask_select ''P102'' [''P101'', ''P101'', ''P102'', ''P102'']
              [0..<length [''P101'', ''P101'', ''P102'', ''P102'']]) 100 1)"
    by (elim conjE)
  with s wp show ?thesis by (intro conjI)
qed

text \<open>
  C3. When no label repeats in the window of position \<open>i\<close> (its maximal frequency
  is 1), the output at \<open>i\<close> is the label at the middle index of the window, the index
  \<open>length window div 2\<close>. The input is one on which \<open>rolling_mode\<close> returns: equal
  lengths, monotonic timestamps in the range of \<open>datetime64[ns]\<close>, a positive window
  size whose nanoseconds fit 64 bits.
\<close>

theorem C3_distinct_window_middle:
  assumes "length t = length y" and "monotonic t" and "datetime_range t"
    and "0 < w" and "in_int64 (w * 1000000000)" and "i < length y"
    and "distinct (window t y w i)"
  shows "\<exists>ys. rolling_mode t y w = Inr ys
              \<and> max_freq (window t y w i) = 1
              \<and> ys ! i = window t y w i ! (length (window t y w i) div 2)"
proof -
  have "max_freq (window t y w i) = 1"
    by (rule max_freq_distinct[OF window_nonempty[OF assms(6)] assms(7)])
  then show ?thesis
    using rolling_mode_nth[OF assms(1,2,5,6)] by (auto simp: modal_label_def)
qed

theorem C3_distinct_window_middle_witness:
  "\<exists>ys. rolling_mode [0, 10, 20] [''walk'', ''sleep'', ''bicycling''] 30 = Inr ys
        \<and> ys ! 2 = ''sleep''"
proof -
  have w: "window [0, 10, 20] [''walk'', ''sleep'', ''bicycling''] 30 2
           = [''walk'', ''sleep'', ''bicycling'']"
    by code_simp
  have m: "monotonic [0, 10, 20]" by code_simp
  have r: "datetime_range [0, 10, 20]" by code_simp
  have p: "(0 :: int) < 30" by simp
  have q: "in_int64 (30 * 1000000000)" by code_simp
  have d: "distinct (window [0, 10, 20] [''walk'', ''sleep'', ''bicycling''] 30 2)"
    unfolding w by simp
  show ?thesis
    using C3_distinct_window_middle[OF _ m r p q _ d] by (auto simp: w)
qed

text \<open>
  C4, as stated, fails: with timestamps \<open>[0, 50, 100]\<close>, labels
  \<open>[sleep, sleep, walk]\<close> and a window of 100, the entry at \<open>t = 0\<close> lies on the left
  endpoint of \<open>[0, 100]\<close>. The closed interval holds all three entries, on which
  \<open>mode\<close> gives sleep; the window that pandas builds leaves the entry at \<open>t = 0\<close>
  out, no label repeats in it, and the output at position 2 is the middle entry, walk.
\<close>

theorem C4_closed_window_counterexample:
  "window [0, 50, 100] [''sleep'', ''sleep'', ''walk''] 100 2 = [''sleep'', ''walk'']
   \<and> spec_closed_interval_window [0, 50, 100] [''sleep'', ''sleep'', ''walk''] 100 2
       = [''sleep'', ''sleep'', ''walk'']
   \<and> mode (map (\<lambda>l. index_of l (categories [''sleep'', ''sleep'', ''walk'']))
                (spec_closed_interval_window [0, 50, 100] [''sleep'', ''sleep'', ''walk''] 100 2))
       = Inr (index_of ''sleep'' (categories [''sleep'', ''sleep'', ''walk'']))
   \<and> rolling_mode [0, 50, 100] [''sleep'', ''sleep'', ''walk''] 100
       = Inr [''sleep'', ''sleep'', ''walk'']"
  by code_simp

text \<open>
  C4, amended. For non-decreasing timestamps and a positive window size, as long as
  the 64-bit nanosecond arithmetic of pandas does not overflow (the timestamps, the
  window size, the first timestamp less the window size, and the window size less
  the time span of the sequence are all in the 64-bit range of nanoseconds), the
  window of position \<open>i\<close> consists of exactly the entries at positions up to \<open>i\<close>
  whose timestamp lies in the half-open interval \<open>(t\<^sub>i - window_size, t\<^sub>i]\<close> (the left
  endpoint excluded, the right one included), and the output at \<open>i\<close> is the modal
  label of that window: the label whose code \<open>mode\<close> returns on the codes of the
  window.
\<close>

theorem C4_half_open_window:
  assumes "length t = length y" and "sorted t" and "0 < w" and "i < length y"
    and "datetime_range t" and "in_int64 (w * 1000000000)"
    and "in_int64 ((hd t - w) * 1000000000)"
    and "in_int64 ((hd t - last t + w) * 1000000000)"
  shows "window t y w i = half_open_interval_window t y w i
         \<and> (\<exists>ys. rolling_mode t y w = Inr ys
                  \<and> ys ! i = modal_label (half_open_interval_window t y w i)
                  \<and> mode (map (\<lambda>l. index_of l (categories y))
                                (half_open_interval_window t y w i))
                      = Inr (index_of (ys ! i) (categories y)))"
proof -
  have m: "monotonic t" using assms(2) by (simp add: monotonic_def)
  have e: "window t y w i = half_open_interval_window t y w i"
    by (rule window_half_open[OF assms(2,3,1,4,5,6,7,8)])
  have "mode (map (\<lambda>l. index_of l (categories y)) (window t y w i))
        = Inr (index_of (modal_label (window t y w i)) (categories y))"
    by (rule mode_codes[OF window_nonempty[OF assms(4)] set_window])
  then show ?thesis
    using rolling_mode_nth[OF assms(1) m assms(6,4)] e by auto
qed

theorem C4_half_open_window_witness:
  "window [0, 50, 100] [''sleep'', ''sleep'', ''walk''] 100 2
     = half_open_interval_window [0, 50, 100] [''sleep'', ''sleep'', ''walk''] 100 2
   \<and> half_open_interval_window [0, 50, 100] [''sleep'', ''sleep'', ''walk''] 100 2
     = [''sleep'', ''walk'']
   \<and> (\<exists>ys. rolling_mode [0, 50, 100] [''sleep'', ''sleep'', ''walk''] 100 = Inr ys
            \<and> ys ! 2 = modal_label [''sleep'', ''walk'']
            \<and> mode (map (\<lambda>l. index_of l (categories [''sleep'', ''sleep'', ''walk'']))
                         [''sleep'', ''walk''])
                = Inr (index_of (ys ! 2) (categories [''sleep'', ''sleep'', ''walk''])))"
proof -
  have h: "half_open_interval_window [0, 50, 100] [''sleep'', ''sleep'', ''walk''] 100 2
           = [''sleep'', ''walk'']"
    by code_simp
  have r: "datetime_range [0, 50, 100]" by code_simp
  have q: "in_int64 (100 * 1000000000)" by code_simp
  have lo: "in_int64 ((hd [0, 50, 100] - 100) * 1000000000)" by code_simp
  have sp: "in_int64 ((hd [0, 50, 100] - last [0, 50, 100] + 100) * 1000000000)" by code_simp
  show ?thesis
    using C4_half_open_window[of "[0, 50, 100]" "[''sleep'', ''sleep'', ''walk'']" 100 2,
        OF _ _ _ _ r q lo sp]
    by (simp add: h)
qed

text \<open>
  C5. \<open>viterbi\<close> decodes by dynamic programming in the log domain: the score of the
  state \<open>k\<close> at time 0 is \<open>log prior[k] + log emission[k][obs\<^sub>0]\<close>; at a later time
  \<open>t\<close> it is the maximum over \<open>j\<close> of \<open>score[t-1][j] + log transition[j][k]\<close>, plus
  \<open>log emission[k][obs\<^sub>t]\<close>, and the backpointer is a state \<open>j\<close> that reaches this
  maximum; the path ends in the state of the best final score and follows the
  backpointers down to time 0. A matrix entry equal to 0 is replaced by the positive
  floor before its logarithm is taken, so that the logarithm of a non-negative entry
  is always that of a positive number.
\<close>

theorem C5_viterbi_log_domain:
  assumes "params_ok p" and "predicted \<noteq> []" and "set predicted \<subseteq> set (labels p)"
    and "obs = map (\<lambda>l. index_of l (labels p)) predicted" and "K = length (labels p)"
    and "0 < eps"
  shows "viterbi eps predicted p = Inr (map (\<lambda>s. labels p ! s) (decode_path eps p obs))
    \<and> (\<forall>k<K. score_table eps p obs ! 0 ! k
           = clipped_log eps (prior p ! k) + clipped_log eps (emission p ! k ! (obs ! 0)))
    \<and> (\<forall>t k. 0 < t \<and> t < length obs \<and> k < K \<longrightarrow>
           score_table eps p obs ! t ! k
             = Max ((\<lambda>j. score_table eps p obs ! (t - 1) ! j
                          + clipped_log eps (transition p ! j ! k)) ` {..<K})
               + clipped_log eps (emission p ! k ! (obs ! t))
           \<and> backpointer_table eps p obs ! (t - 1) ! k < K
           \<and> score_table eps p obs ! (t - 1) ! (backpointer_table eps p obs ! (t - 1) ! k)
               + clipped_log eps (transition p ! (backpointer_table eps p obs ! (t - 1) ! k) ! k)
             = Max ((\<lambda>j. score_table eps p obs ! (t - 1) ! j
                          + clipped_log eps (transition p ! j ! k)) ` {..<K}))
    \<and> decode_path eps p obs ! (length obs - 1)
        = argmax (score_table eps p obs ! (length obs - 1))
    \<and> score_table eps p obs ! (length obs - 1) ! (decode_path eps p obs ! (length obs - 1))
        = Max (set (score_table eps p obs ! (length obs - 1)))
    \<and> (\<forall>t. 0 < t \<and> t < length obs \<longrightarrow>
           decode_path eps p obs ! (t - 1)
             = backpointer_table eps p obs ! (t - 1) ! (decode_path eps p obs ! t))
    \<and> clipped_log eps 0 = ln eps
    \<and> (\<forall>x. x \<noteq> 0 \<longrightarrow> clipped_log eps x = ln x)
    \<and> (\<forall>x. 0 \<le> x \<longrightarrow> (\<exists>z. 0 < z \<and> clipped_log eps x = ln z))"
proof -
  have ne: "obs \<noteq> []" using assms(2,4) by simp
  have lne: "labels p \<noteq> []" using assms(2,3) by (cases predicted) auto
  have c1: "viterbi eps predicted p = Inr (map (\<lambda>s. labels p ! s) (decode_path eps p obs))"
    unfolding assms(4) by (rule viterbi_valid[OF assms(2,3)])
  have c2: "\<forall>k<K. score_table eps p obs ! 0 ! k
           = clipped_log eps (prior p ! k) + clipped_log eps (emission p ! k ! (obs ! 0))"
    unfolding assms(5) using score_table_initial[OF ne] by blast
  have c3: "\<forall>t k. 0 < t \<and> t < length obs \<and> k < K \<longrightarrow>
           score_table eps p obs ! t ! k
             = Max ((\<lambda>j. score_table eps p obs ! (t - 1) ! j
                          + clipped_log eps (transition p ! j ! k)) ` {..<K})
               + clipped_log eps (emission p ! k ! (obs ! t))
           \<and> backpointer_table eps p obs ! (t - 1) ! k < K
           \<and> score_table eps p obs ! (t - 1) ! (backpointer_table eps p obs ! (t - 1) ! k)
               + clipped_log eps (transition p ! (backpointer_table eps p obs ! (t - 1) ! k) ! k)
             = Max ((\<lambda>j. score_table eps p obs ! (t - 1) ! j
                          + clipped_log eps (transition p ! j ! k)) ` {..<K})"
    unfolding assms(5)
    using score_table_recurrence[of _ obs _ p eps] backpointer_argmax[of _ obs _ p eps]
    by blast
  have c4: "decode_path eps p obs ! (length obs - 1)
        = argmax (score_table eps p obs ! (length obs - 1))"
    by (rule decode_path_last[OF ne])
  have c5: "score_table eps p obs ! (length obs - 1) ! (decode_path eps p obs ! (length obs - 1))
        = Max (set (score_table eps p obs ! (length obs - 1)))"
    by (rule final_state_best[OF ne lne])
  have c6: "\<forall>t. 0 < t \<and> t < length obs \<longrightarrow>
           decode_path eps p obs ! (t - 1)
             = backpointer_table eps p obs ! (t - 1) ! (decode_path eps p obs ! t)"
    using decode_path_step[of _ obs eps p] by blast
  have c7: "clipped_log eps 0 = ln eps" by (simp add: clipped_log_def)
  have c8: "\<forall>x. x \<noteq> 0 \<longrightarrow> clipped_log eps x = ln x" by (simp add: clipped_log_def)
  have c9: "\<forall>x. 0 \<le> x \<longrightarrow> (\<exists>z. 0 < z \<and> clipped_log eps x = ln z)"
  proof (intro allI impI)
    fix x :: real assume "0 \<le> x"
    then have "0 < (if x = 0 then eps else x)" using assms(6) by simp
    then show "\<exists>z. 0 < z \<and> clipped_log eps x = ln z"
      unfolding clipped_log_def by blast
  qed
  from c1 c2 c3 c4 c5 c6 c7 c8 c9 show ?thesis by (intro conjI)
qed

theorem C5_viterbi_log_domain_witness:
  "viterbi (1 / 10 ^ 16) [''A'', ''A'', ''B'', ''A'', ''A'']
      \<lparr>prior = [1 / 2, 1 / 2], emission = [[1, 0], [0, 1]],
       transition = [[9 / 10, 1 / 10], [1 / 10, 9 / 10]], labels = [''A'', ''B'']\<rparr>
     = Inr (map (\<lambda>s. [''A'', ''B''] ! s)
             (decode_path (1 / 10 ^ 16)
                \<lparr>prior = [1 / 2, 1 / 2], emission = [[1, 0], [0, 1]],
                 transition = [[9 / 10, 1 / 10], [1 / 10, 9 / 10]], labels = [''A'', ''B'']\<rparr>
                [0, 0, 1, 0, 0]))
   \<and> score_table (1 / 10 ^ 16)
        \<lparr>prior = [1 / 2, 1 / 2], emission = [[1, 0], [0, 1]],
         transition = [[9 / 10, 1 / 10], [1 / 10, 9 / 10]], labels = [''A'', ''B'']\<rparr>
        [0, 0, 1, 0, 0] ! 0 ! 1
     = ln (1 / 2) + ln (1 / 10 ^ 16)"
proof -
  define P :: "string hmm_params" where
    "P = \<lparr>prior = [1 / 2, 1 / 2], emission = [[1, 0], [0, 1]],
          transition = [[9 / 10, 1 / 10], [1 / 10, 9 / 10]], labels = [''A'', ''B'']\<rparr>"
  have ok: "params_ok P" by (simp add: params_ok_def P_def)
  have ne: "[''A'', ''A'', ''B'', ''A'', ''A''] \<noteq> []" by simp
  have pos: "(0 :: real) < 1 / 10 ^ 16" by simp
  have sub: "set [''A'', ''A'', ''B'', ''A'', ''A''] \<subseteq> set (labels P)" by (simp add: P_def)
  have obs: "[0, 0, 1, 0, 0] = map (\<lambda>l. index_of l (labels P)) [''A'', ''A'', ''B'', ''A'', ''A'']"
    by (simp add: P_def)
  note th = C5_viterbi_log_domain[OF ok ne sub obs refl pos]
  from th have a: "viterbi (1 / 10 ^ 16) [''A'', ''A'', ''B'', ''A'', ''A''] P
      = Inr (map (\<lambda>s. labels P ! s) (decode_path (1 / 10 ^ 16) P [0, 0, 1, 0, 0]))"
    by (elim conjE)
  from th have "\<forall>k<length (labels P). score_table (1 / 10 ^ 16) P [0, 0, 1, 0, 0] ! 0 ! k
           = clipped_log (1 / 10 ^ 16) (prior P ! k)
             + clipped_log (1 / 10 ^ 16) (emission P ! k ! ([0, 0, 1, 0, 0] ! 0))"
    by (elim conjE)
  then have "score_table (1 / 10 ^ 16) P [0, 0, 1, 0, 0] ! 0 ! 1
           = clipped_log (1 / 10 ^ 16) (prior P ! 1)
             + clipped_log (1 / 10 ^ 16) (emission P ! 1 ! ([0, 0, 1, 0, 0] ! 0))"
    by (simp add: P_def)
  then have b: "score_table (1 / 10 ^ 16) P [0, 0, 1, 0, 0] ! 0 ! 1
           = ln (1 / 2) + ln (1 / 10 ^ 16)"
    by (simp add: P_def clipped_log_def)
  show ?thesis using a b unfolding P_def by simp
qed

text \<open>
  C7. On the timestamps \<open>[0, 10, 20, 30, 40]\<close> (seconds), the labels
  \<open>[sleep, sleep, walk, sleep, sleep]\<close> and a window of 30 seconds, \<open>rolling_mode\<close>
  returns a sequence whose position 2, the isolated walk at \<open>t = 20\<close>, holds sleep
  (every position of the result does).
\<close>

theorem C7_isolated_walk_smoothed:
  "rolling_mode [0, 10, 20, 30, 40] [''sleep'', ''sleep'', ''walk'', ''sleep'', ''sleep''] 30
     = Inr [''sleep'', ''sleep'', ''sleep'', ''sleep'', ''sleep'']"
  by code_simp

text \<open>
  C8. \<open>viterbi\<close> fails with a validation error exactly when the sequence of
  predicted labels is empty or holds a value that is not a label of the parameter
  bundle; on every other input with a well-formed bundle it returns a sequence.
\<close>

theorem C8_viterbi_validation:
  assumes "params_ok p"
  shows "(viterbi eps predicted p = Inl ValidationError)
           = (predicted = [] \<or> (\<exists>l\<in>set predicted. l \<notin> set (labels p)))
         \<and> ((\<exists>zs. viterbi eps predicted p = Inr zs)
           = (predicted \<noteq> [] \<and> set predicted \<subseteq> set (labels p)))"
proof -
  have "\<exists>zs. viterbi eps predicted p = Inr zs"
    if "predicted \<noteq> []" "set predicted \<subseteq> set (labels p)"
    using viterbi_length_alphabet[OF that, of eps] by blast
  moreover have "viterbi eps predicted p = Inl ValidationError"
    if "\<not> (predicted \<noteq> [] \<and> set predicted \<subseteq> set (labels p))"
    using that viterbi_invalid[of eps predicted p] by blast
  ultimately show ?thesis by (cases "viterbi eps predicted p") auto
qed

theorem C8_viterbi_validation_witness:
  "viterbi (1 / 10 ^ 16) [''A'', ''C'']
      \<lparr>prior = [1 / 2, 1 / 2], emission = [[1, 0], [0, 1]],
       transition = [[9 / 10, 1 / 10], [1 / 10, 9 / 10]], labels = [''A'', ''B'']\<rparr>
     = Inl ValidationError
   \<and> viterbi (1 / 10 ^ 16) []
      \<lparr>prior = [1 / 2, 1 / 2], emission = [[1, 0], [0, 1]],
       transition = [[9 / 10, 1 / 10], [1 / 10, 9 / 10]], labels = [''A'', ''B'']\<rparr>
     = Inl ValidationError
   \<and> (\<exists>zs. viterbi (1 / 10 ^ 16) [''A'', ''A'', ''B'', ''A'', ''A'']
      \<lparr>prior = [1 / 2, 1 / 2], emission = [[1, 0], [0, 1]],
       transition = [[9 / 10, 1 / 10], [1 / 10, 9 / 10]], labels = [''A'', ''B'']\<rparr>
     = Inr zs)"
proof -
  have ok: "params_ok \<lparr>prior = [1 / 2, 1 / 2], emission = [[1, 0], [0, 1]],
                transition = [[9 / 10, 1 / 10], [1 / 10, 9 / 10]], labels = [''A'', ''B'']\<rparr>"
    by (simp add: params_ok_def)
  show ?thesis
    using C8_viterbi_validation[OF ok, of "1 / 10 ^ 16" "[''A'', ''C'']"]
      C8_viterbi_validation[OF ok, of "1 / 10 ^ 16" "[]"]
      C8_viterbi_validation[OF ok, of "1 / 10 ^ 16" "[''A'', ''A'', ''B'', ''A'', ''A'']"]
    by simp
qed

text \<open>
  C9. When the maximal frequency in the window of position \<open>i\<close> is greater than 1,
  the output at \<open>i\<close> is the least, in the sorted order of the labels, of the labels
  that reach this frequency, and its category code is the least of their codes. In
  particular a tie between several labels is resolved towards the label that comes
  first in the sorted alphabet. The input is one on which \<open>rolling_mode\<close> returns:
  equal lengths, monotonic timestamps in the range of \<open>datetime64[ns]\<close>, a positive
  window size whose nanoseconds fit 64 bits.
\<close>

theorem C9_tie_least_label:
  assumes "length t = length y" and "monotonic t" and "datetime_range t"
    and "0 < w" and "in_int64 (w * 1000000000)" and "i < length y"
    and "1 < max_freq (window t y w i)"
  shows "\<exists>ys. rolling_mode t y w = Inr ys
              \<and> ys ! i = Min (set (tied_labels (window t y w i)))
              \<and> index_of (ys ! i) (categories y)
                  = Min (set (map (\<lambda>l. index_of l (categories y)) (tied_labels (window t y w i))))"
proof -
  have sub: "set (tied_labels (window t y w i)) \<subseteq> set y"
    using tied_labels_subset[of "window t y w i"] set_window[of t y w i]
    by (rule subset_trans)
  have "index_of (Min (set (tied_labels (window t y w i)))) (categories y)
        = Min (set (map (\<lambda>l. index_of l (categories y)) (tied_labels (window t y w i))))"
    by (rule Min_codes[OF tied_labels_nonempty[OF window_nonempty[OF assms(6)]] sub, symmetric])
  then show ?thesis
    using rolling_mode_nth[OF assms(1,2,5,6)] assms(7) by (auto simp: modal_label_def)
qed

theorem C9_tie_least_label_witness:
  "\<exists>ys. rolling_mode [0, 10, 20, 30] [''walk'', ''sleep'', ''walk'', ''sleep''] 100 = Inr ys
        \<and> ys ! 3 = ''sleep''"
proof -
  have w: "window [0, 10, 20, 30] [''walk'', ''sleep'', ''walk'', ''sleep''] 100 3
           = [''walk'', ''sleep'', ''walk'', ''sleep'']"
    by code_simp
  have m: "monotonic [0, 10, 20, 30]" by code_simp
  have r: "datetime_range [0, 10, 20, 30]" by code_simp
  have p: "(0 :: int) < 100" by simp
  have q: "in_int64 (100 * 1000000000)" by code_simp
  have f: "1 < max_freq (window [0, 10, 20, 30] [''walk'', ''sleep'', ''walk'', ''sleep''] 100 3)"
    unfolding w by code_simp
  have t: "Min (set (tied_labels [''walk'', ''sleep'', ''walk'', ''sleep''])) = ''sleep''"
    by code_simp
  show ?thesis
    using C9_tie_least_label[OF _ m r p q _ f] by (auto simp: w t)
qed

text \<open>
  C10. For a non-empty input with strictly increasing timestamps (in the range of
  \<open>datetime64[ns]\<close>, with a positive window size whose nanoseconds fit 64 bits), the
  first element of the sequence that \<open>rolling_mode\<close> returns is the first input
  label: the window of position 0 holds entry 0 alone, its maximal frequency is 1,
  and the middle index gives that entry back.
\<close>

theorem C10_first_label_unchanged:
  assumes "length t = length y" and "y \<noteq> []" and "sorted_wrt (<) t"
    and "datetime_range t" and "0 < w" and "in_int64 (w * 1000000000)"
  shows "\<exists>ys. rolling_mode t y w = Inr ys \<and> ys \<noteq> []
              \<and> window t y w 0 = [y ! 0] \<and> max_freq (window t y w 0) = 1
              \<and> ys ! 0 = y ! 0"
proof -
  have i: "0 < length y" using assms(2) by simp
  have "max_freq [y ! 0] = 1" by (simp add: max_freq_def)
  then show ?thesis
    using rolling_mode_nth[OF assms(1) strict_sorted_monotonic[OF assms(3)] assms(6) i] assms(2)
    by (auto simp: window_first modal_label_single)
qed

theorem C10_first_label_unchanged_witness:
  "\<exists>ys. rolling_mode [0, 30, 60] [''walk'', ''sleep'', ''sleep''] 100 = Inr ys
        \<and> ys \<noteq> [] \<and> ys ! 0 = ''walk''"
proof -
  have r: "datetime_range [0, 30, 60]" by code_simp
  have q: "in_int64 (100 * 1000000000)" by code_simp
  show ?thesis
    using C10_first_label_unchanged[of "[0, 30, 60]" "[''walk'', ''sleep'', ''sleep'']" 100] r q
    by auto
qed

end
